(* ===== verification/Prelude.thy ===== *)
theory Prelude
  imports Complex_Main
begin

text \<open>
  Shared vocabulary of the development: the type of vertex labels, the
  insertion-ordered set insertion that both the JavaScript \<open>Set\<close> of the
  client and the vertex list of the graph engine perform, and generic facts on
  lists and sums that the component theories use.  The collections
  \<open>js_simps\<close> and \<open>graph_simps\<close> gather the characteristic equations of
  the JavaScript built-ins and of the engine operations.
\<close>

named_theorems js_simps "equations of the JavaScript built-ins of the model"
named_theorems graph_simps "equations of the graph engine operations"

type_synonym label = string

section \<open>Insertion-ordered set insertion\<close>

text \<open>
  \<open>list_insert x xs\<close> appends \<open>x\<close> unless it is already present; it is
  JavaScript's \<open>Set.prototype.add\<close> read through \<open>Array.from\<close>, and the
  engine's idempotent \<open>addVertex\<close> on its vertex list.
\<close>

definition list_insert :: "'a \<Rightarrow> 'a list \<Rightarrow> 'a list" where
  "list_insert x xs = (if x \<in> set xs then xs else xs @ [x])"

definition list_of_set_order :: "'a list \<Rightarrow> 'a list" where
  "list_of_set_order xs = fold list_insert xs []"

lemma set_list_insert [simp]: "set (list_insert x xs) = insert x (set xs)"
  by (auto simp: list_insert_def)

lemma distinct_list_insert [simp]: "distinct (list_insert x xs) = distinct xs"
  by (simp add: list_insert_def)

lemma list_insert_present [simp]: "x \<in> set xs \<Longrightarrow> list_insert x xs = xs"
  by (simp add: list_insert_def)

lemma list_insert_absent [simp]: "x \<notin> set xs \<Longrightarrow> list_insert x xs = xs @ [x]"
  by (simp add: list_insert_def)

lemma prefix_list_insert: "\<exists>ys. list_insert x xs = xs @ ys"
  by (auto simp: list_insert_def)

lemma prefix_fold_list_insert: "\<exists>ys. fold list_insert xs vs = vs @ ys"
proof (induction xs arbitrary: vs)
  case Nil
  show ?case by (rule exI [of _ "[]"]) simp
next
  case (Cons x xs)
  obtain ys where ys: "list_insert x vs = vs @ ys" using prefix_list_insert [of x vs] by (elim exE)
  obtain zs where zs: "fold list_insert xs (list_insert x vs) = list_insert x vs @ zs"
    using Cons.IH [of "list_insert x vs"] by (elim exE)
  have "fold list_insert (x # xs) vs = vs @ ys @ zs" using zs ys by simp
  then show ?case by (rule exI)
qed

lemma set_fold_list_insert [simp]:
  "set (fold list_insert xs ys) = set ys \<union> set xs"
  by (induction xs arbitrary: ys) auto

lemma distinct_fold_list_insert [simp]:
  "distinct (fold list_insert xs ys) = distinct ys"
  by (induction xs arbitrary: ys) auto

lemma length_fold_list_insert:
  "distinct ys \<Longrightarrow> length (fold list_insert xs ys) = card (set ys \<union> set xs)"
  by (metis distinct_card distinct_fold_list_insert set_fold_list_insert)

lemma list_of_set_order_set [simp]: "set (list_of_set_order xs) = set xs"
  by (simp add: list_of_set_order_def)

lemma list_of_set_order_distinct [simp]: "distinct (list_of_set_order xs)"
  by (simp add: list_of_set_order_def)

lemma list_of_set_order_id: "distinct xs \<Longrightarrow> list_of_set_order xs = xs"
proof -
  have "distinct (ys @ xs) \<Longrightarrow> fold list_insert xs ys = ys @ xs" for ys
    by (induction xs arbitrary: ys) auto
  then show "distinct xs \<Longrightarrow> list_of_set_order xs = xs"
    by (simp add: list_of_set_order_def)
qed

section \<open>Counting with sums over lists\<close>

lemma sum_list_indicator:
  "(\<Sum>x\<leftarrow>xs. if x = a then 1 else 0) = count_list xs a"
  by (induction xs) auto

lemma sum_list_indicator_distinct:
  "distinct xs \<Longrightarrow> (\<Sum>x\<leftarrow>xs. if x = a then 1 else (0::nat)) = (if a \<in> set xs then 1 else 0)"
  by (induction xs) auto

lemma sum_list_swap:
  "(\<Sum>x\<leftarrow>xs. \<Sum>y\<leftarrow>ys. f x y) = (\<Sum>y\<leftarrow>ys. \<Sum>x\<leftarrow>xs. (f x y :: nat))"
  by (induction xs) (auto simp: sum_list_addf)

lemma sum_list_const_filter:
  "(\<Sum>x\<leftarrow>xs. if P x then 1 else (0::nat)) = length (filter P xs)"
  by (induction xs) auto

lemma sum_count_endpoint:
  assumes "distinct vs" and "\<forall>e\<in>set es. f e \<in> set vs"
  shows "(\<Sum>v\<leftarrow>vs. length (filter (\<lambda>e. f e = v) es)) = length es"
proof -
  have "(\<Sum>v\<leftarrow>vs. length (filter (\<lambda>e. f e = v) es)) = (\<Sum>v\<leftarrow>vs. \<Sum>e\<leftarrow>es. if f e = v then 1 else 0)"
    by (simp add: sum_list_const_filter)
  also have "\<dots> = (\<Sum>e\<leftarrow>es. \<Sum>v\<leftarrow>vs. if v = f e then 1 else 0)"
    by (subst sum_list_swap) (simp add: eq_commute)
  also have "\<dots> = (\<Sum>e\<leftarrow>es. 1)"
    using assms by (intro arg_cong[where f = sum_list] map_cong) (auto simp: sum_list_indicator_distinct)
  finally show ?thesis by (simp add: sum_list_triv)
qed

lemma remdups_present: "x \<in> set ys \<Longrightarrow> remdups (zs @ x # ys) = remdups (zs @ ys)"
  by (induction zs) auto

lemma fold_list_insert_remdups:
  "fold list_insert xs acc = rev (remdups (rev (acc @ xs)))" if "distinct acc"
  using that
proof (induction xs arbitrary: acc)
  case Nil
  then show ?case by (simp add: distinct_remdups_id)
next
  case (Cons x xs)
  show ?case
  proof (cases "x \<in> set acc")
    case True
    then have "remdups (rev xs @ x # rev acc) = remdups (rev xs @ rev acc)"
      by (simp add: remdups_present)
    with True Cons show ?thesis by simp
  next
    case False
    with Cons show ?thesis by simp
  qed
qed

lemma list_of_set_order_remdups: "list_of_set_order xs = rev (remdups (rev xs))"
  by (simp add: list_of_set_order_def fold_list_insert_remdups)

end
