(* ===== verification/JsString.thy ===== *)
theory JsString
  imports Prelude
begin

text \<open>
  The JavaScript built-ins that the client's text parsing in
  \<open>src/src/App.js\<close> relies on: \<open>String.prototype.split\<close> with a
  one-character separator, \<open>String.prototype.trim\<close>, \<open>parseFloat\<close> and
  the number values it yields, and \<open>Array.prototype.join\<close> as the inverse
  of \<open>split\<close>.  JavaScript strings are sequences of UTF-16 code units; the
  model uses \<open>string\<close>, whose characters are the 256 code units below
  \<open>0x100\<close>, so the whitespace set below is ECMAScript's
  \<open>WhiteSpace\<close> and \<open>LineTerminator\<close> restricted to that range.
  Numbers are the exact decimal values of their literals (\<open>rat\<close>), without
  the rounding to binary64; \<open>-0\<close> is identified with \<open>0\<close>.
\<close>

section \<open>Whitespace and trim\<close>

definition js_ws :: "char \<Rightarrow> bool" where
  "js_ws c \<longleftrightarrow> of_char c \<in> {9, 10, 11, 12, 13, 32, 160 :: nat}"

definition js_trim :: "string \<Rightarrow> string" where
  "js_trim s = rev (dropWhile js_ws (rev (dropWhile js_ws s)))"

section \<open>split with a one-character separator, and join\<close>

text \<open>
  \<open>s.split(c)\<close> returns the maximal pieces of \<open>s\<close> between occurrences of
  \<open>c\<close>, always at least one (\<open>"".split(c)\<close> is \<open>[""]\<close>).
\<close>

fun js_split :: "char \<Rightarrow> string \<Rightarrow> string list" where
  "js_split c [] = [[]]"
| "js_split c (x # xs) =
     (if x = c then [] # js_split c xs
      else (let r = js_split c xs in (x # hd r) # tl r))"

fun js_join :: "char \<Rightarrow> string list \<Rightarrow> string" where
  "js_join c [] = []"
| "js_join c [x] = x"
| "js_join c (x # y # ys) = x @ c # js_join c (y # ys)"

section \<open>Numbers and parseFloat\<close>

datatype jsnum = NaN | Fin rat | PosInf | NegInf

definition js_neg :: "jsnum \<Rightarrow> jsnum" where
  "js_neg n = (case n of NaN \<Rightarrow> NaN | Fin x \<Rightarrow> Fin (- x) | PosInf \<Rightarrow> NegInf | NegInf \<Rightarrow> PosInf)"

definition is_digit :: "char \<Rightarrow> bool" where
  "is_digit c \<longleftrightarrow> (48::nat) \<le> of_char c \<and> of_char c \<le> (57::nat)"

definition digits_val :: "string \<Rightarrow> nat" where
  "digits_val ds = foldl (\<lambda>n d. 10 * n + (of_char d - 48)) (0::nat) ds"

text \<open>
  The optional \<open>ExponentPart\<close> of a \<open>StrDecimalLiteral\<close>: \<open>e\<close> or
  \<open>E\<close>, an optional sign and at least one digit.  Without a digit there is
  no exponent part and the longest valid prefix ends before the \<open>e\<close>.
\<close>

definition parse_exponent :: "string \<Rightarrow> int" where
  "parse_exponent s =
     (case s of
        [] \<Rightarrow> 0
      | e # r \<Rightarrow>
          (if e = CHR ''e'' \<or> e = CHR ''E'' then
             (let (sg, r') = (case r of
                                 [] \<Rightarrow> (1, r)
                               | x # r'' \<Rightarrow> (if x = CHR ''-'' then (-1, r'')
                                             else if x = CHR ''+'' then (1, r'') else (1, r)));
                  ds = takeWhile is_digit r'
              in if ds = [] then 0 else sg * int (digits_val ds))
           else 0))"

definition scale10 :: "rat \<Rightarrow> int \<Rightarrow> rat" where
  "scale10 m e = (if 0 \<le> e then m * 10 ^ nat e else m / 10 ^ nat (- e))"

text \<open>
  \<open>StrUnsignedDecimalLiteral\<close>: \<open>Infinity\<close>, or digits with an optional
  fraction (\<open>1.\<close>, \<open>1.5\<close>, \<open>.5\<close>; not \<open>.\<close>) and an optional exponent.
  The longest prefix that is such a literal is read; none gives \<open>NaN\<close>.
\<close>

definition parse_unsigned :: "string \<Rightarrow> jsnum" where
  "parse_unsigned s =
     (if take 8 s = ''Infinity'' then PosInf
      else
        (let ip = takeWhile is_digit s;
             r1 = dropWhile is_digit s;
             (fp, r2) = (case r1 of
                           [] \<Rightarrow> ([], [])
                         | c # r \<Rightarrow> (if c = CHR ''.'' then (takeWhile is_digit r, dropWhile is_digit r)
                                    else ([], r1)))
         in if ip = [] \<and> fp = [] then NaN
            else Fin (scale10 (of_nat (digits_val (ip @ fp)) / 10 ^ length fp)
                              (parse_exponent r2))))"

text \<open>\<open>parseFloat(s)\<close>: leading whitespace is skipped, then an optional sign.\<close>

definition parse_float :: "string \<Rightarrow> jsnum" where
  "parse_float s =
     (case dropWhile js_ws s of
        [] \<Rightarrow> NaN
      | c # r \<Rightarrow> (if c = CHR ''-'' then js_neg (parse_unsigned r)
                 else if c = CHR ''+'' then parse_unsigned r
                 else parse_unsigned (c # r)))"

text \<open>Truthiness of a number (\<open>0\<close> and \<open>NaN\<close> are falsy).\<close>

definition num_truthy :: "jsnum \<Rightarrow> bool" where
  "num_truthy n = (case n of NaN \<Rightarrow> False | Fin x \<Rightarrow> x \<noteq> 0 | _ \<Rightarrow> True)"

text \<open>\<open>Number.prototype.toString\<close> on a natural number: its decimal digits.\<close>

fun dec_string :: "nat \<Rightarrow> string" where
  "dec_string n = (if n < 10 then [char_of (48 + n)] else dec_string (n div 10) @ [char_of (48 + n mod 10)])"

declare dec_string.simps [simp del]

declare js_trim_def [js_simps] js_ws_def [js_simps] parse_float_def [js_simps]
  parse_unsigned_def [js_simps] parse_exponent_def [js_simps] is_digit_def [js_simps]
  digits_val_def [js_simps] scale10_def [js_simps] js_neg_def [js_simps] num_truthy_def [js_simps]

section \<open>Properties of the built-ins\<close>

lemma js_split_not_Nil [simp]: "js_split c s \<noteq> []"
  by (induction s) (auto simp: Let_def)

lemma js_join_Cons_hd: "js_join c ((x # y) # ys) = x # js_join c (y # ys)"
  by (cases ys) auto

lemma js_join_split: "js_join c (js_split c s) = s"
proof (induction s)
  case Nil
  then show ?case by simp
next
  case (Cons x xs)
  obtain y ys where r: "js_split c xs = y # ys"
    using js_split_not_Nil by (metis list.exhaust)
  show ?case
  proof (cases "x = c")
    case True
    with Cons.IH r show ?thesis by simp
  next
    case False
    with Cons.IH r show ?thesis by (simp add: js_join_Cons_hd)
  qed
qed

lemma js_split_no_sep: "c \<notin> set s \<Longrightarrow> js_split c s = [s]"
  by (induction s) auto

lemma js_split_append_sep: "c \<notin> set x \<Longrightarrow> js_split c (x @ c # r) = x # js_split c r"
  by (induction x) auto

lemma js_split_join:
  "ps \<noteq> [] \<Longrightarrow> \<forall>p\<in>set ps. c \<notin> set p \<Longrightarrow> js_split c (js_join c ps) = ps"
  by (induction c ps rule: js_join.induct) (auto simp: js_split_no_sep js_split_append_sep)

lemma js_split_pieces: "p \<in> set (js_split c s) \<Longrightarrow> c \<notin> set p"
proof (induction s arbitrary: p)
  case Nil
  then show ?case by simp
next
  case (Cons x xs)
  obtain y ys where r: "js_split c xs = y # ys"
    using js_split_not_Nil by (metis list.exhaust)
  with Cons show ?case by (auto split: if_splits)
qed

lemma length_js_split: "length (js_split c s) = Suc (count_list s c)"
proof (induction s)
  case Nil
  then show ?case by simp
next
  case (Cons x xs)
  obtain y ys where r: "js_split c xs = y # ys"
    using js_split_not_Nil by (metis list.exhaust)
  with Cons show ?case by auto
qed

lemma js_trim_ends:
  "js_trim s = [] \<or> (\<not> js_ws (hd (js_trim s)) \<and> \<not> js_ws (last (js_trim s)))"
proof -
  let ?t = "dropWhile js_ws s"
  let ?u = "dropWhile js_ws (rev ?t)"
  have tr: "js_trim s = rev ?u" by (simp add: js_trim_def)
  show ?thesis
  proof (cases "?u = []")
    case True
    then show ?thesis by (simp add: tr)
  next
    case False
    have "\<not> js_ws (hd ?u)" using False by (rule hd_dropWhile)
    then have last_ok: "\<not> js_ws (last (rev ?u))"
      using False by (simp add: last_rev)
    have "?t \<noteq> []" using False by (metis Nil_is_rev_conv dropWhile.simps(1))
    then have hd_t: "\<not> js_ws (hd ?t)" by (simp add: hd_dropWhile)
    have "rev ?t = takeWhile js_ws (rev ?t) @ ?u" by (simp only: takeWhile_dropWhile_id)
    then have "?t = rev ?u @ rev (takeWhile js_ws (rev ?t))" by (metis rev_append rev_rev_ident)
    then have "hd ?t = hd (rev ?u)" using False by (metis Nil_is_rev_conv hd_append2)
    with hd_t last_ok show ?thesis by (simp add: tr)
  qed
qed

lemma js_trim_infix: "\<exists>pre suf. s = pre @ js_trim s @ suf \<and> (\<forall>c\<in>set pre. js_ws c) \<and> (\<forall>c\<in>set suf. js_ws c)"
proof -
  let ?t = "dropWhile js_ws s"
  let ?u = "dropWhile js_ws (rev ?t)"
  have s1: "s = takeWhile js_ws s @ ?t" by simp
  have "?t = rev ?u @ rev (takeWhile js_ws (rev ?t))"
    by (metis rev_append rev_rev_ident takeWhile_dropWhile_id)
  then have "s = takeWhile js_ws s @ js_trim s @ rev (takeWhile js_ws (rev ?t))"
    using s1 by (simp add: js_trim_def)
  then show ?thesis
    by (metis (no_types, lifting) set_rev set_takeWhileD)
qed

lemma digits_val_snoc: "digits_val (xs @ [d]) = 10 * digits_val xs + (of_char d - 48)"
  by (simp add: digits_val_def)

lemma dec_string_digits: "c \<in> set (dec_string n) \<Longrightarrow> is_digit c"
proof (induction n rule: dec_string.induct)
  case (1 n)
  then show ?case
    by (subst (asm) dec_string.simps) (auto simp: is_digit_def split: if_splits)
qed

lemma dec_string_not_Nil [simp]: "dec_string n \<noteq> []"
  by (subst dec_string.simps) simp

lemma digits_val_dec_string: "digits_val (dec_string n) = n"
proof (induction n rule: dec_string.induct)
  case (1 n)
  show ?case
  proof (cases "n < 10")
    case True
    then show ?thesis by (subst dec_string.simps) (simp add: digits_val_def)
  next
    case False
    with "1.IH" have "digits_val (dec_string (n div 10)) = n div 10" by simp
    with False show ?thesis
      by (subst dec_string.simps) (simp add: digits_val_snoc)
  qed
qed

lemma parse_float_digits:
  assumes ne: "ds \<noteq> []" and dig: "\<forall>c\<in>set ds. is_digit c"
  shows "parse_float ds = Fin (of_nat (digits_val ds))"
proof -
  have nws: "dropWhile js_ws ds = ds"
    using ne dig by (cases ds) (auto simp: is_digit_def js_ws_def)
  have tw: "takeWhile is_digit ds = ds" and dw: "dropWhile is_digit ds = []"
    using dig by (simp_all add: takeWhile_eq_all_conv dropWhile_eq_Nil_conv)
  have ninf: "take 8 ds \<noteq> ''Infinity''"
  proof
    assume "take 8 ds = ''Infinity''"
    then have "CHR ''I'' \<in> set ds" by (metis in_set_takeD list.set_intros(1))
    with dig show False by (auto simp: is_digit_def)
  qed
  have "parse_unsigned ds = Fin (of_nat (digits_val ds))"
    using ne ninf by (simp add: parse_unsigned_def tw dw scale10_def parse_exponent_def)
  moreover obtain c r where cr: "ds = c # r" using ne by (cases ds) auto
  moreover have "\<not> js_ws c \<and> c \<noteq> CHR ''-'' \<and> c \<noteq> CHR ''+''"
    using dig cr by (auto simp: is_digit_def js_ws_def)
  ultimately show ?thesis by (simp add: parse_float_def)
qed

lemma parse_float_dec_string: "parse_float (dec_string n) = Fin (of_nat n)"
  using parse_float_digits[of "dec_string n"] dec_string_digits digits_val_dec_string
  by simp

end
