(* ===== verification/BatchParser.thy ===== *)
theory BatchParser
  imports JsString
begin

text \<open>
  The client-side parsing of the batch text box (\<open>handleBatchInsert\<close>,
  \<open>src/src/App.js\<close> lines 82--99) and of an uploaded file
  (\<open>handleFileUpload\<close>, lines 148--166).  Both split the text at
  \<open>"\n"\<close>, trim each line, split it at single spaces, and keep the lines
  with two or three parts as edges \<open>[v1, v2]\<close> or
  \<open>[v1, v2, parseFloat(w)]\<close>, adding both endpoints to an
  insertion-ordered \<open>Set\<close> of vertices.  The client's edge arrays are the
  datatype \<open>cedge\<close>: a two-element array, or a three-element array whose
  last slot is a number, \<open>null\<close> (as parsed back from JSON) or \<open>undefined\<close> (as \<open>handleAddEdge\<close> stores it
  for unweighted graphs).
\<close>

datatype jsval = JUndefined | JNull | JNumber jsnum

datatype cedge = Edge2 label label | Edge3 label label jsval

fun edge_v1 :: "cedge \<Rightarrow> label" where
  "edge_v1 (Edge2 a b) = a"
| "edge_v1 (Edge3 a b w) = a"

fun edge_v2 :: "cedge \<Rightarrow> label" where
  "edge_v2 (Edge2 a b) = b"
| "edge_v2 (Edge3 a b w) = b"

text \<open>The body of \<open>lines.forEach\<close>: one line to an edge, or nothing.\<close>

definition batch_line :: "string \<Rightarrow> cedge option" where
  "batch_line line =
     (let parts = js_split CHR '' '' (js_trim line)
      in if length parts = 2 \<or> length parts = 3 then
           Some (if length parts = 3
                 then Edge3 (parts ! 0) (parts ! 1) (JNumber (parse_float (parts ! 2)))
                 else Edge2 (parts ! 0) (parts ! 1))
         else None)"

text \<open>The loop over the lines, threading the vertex set and the edge array.\<close>

fun add_lines :: "string list \<Rightarrow> label list \<times> cedge list \<Rightarrow> label list \<times> cedge list" where
  "add_lines [] acc = acc"
| "add_lines (l # ls) (vs, es) =
     (case batch_line l of
        None \<Rightarrow> add_lines ls (vs, es)
      | Some e \<Rightarrow> add_lines ls (list_insert (edge_v2 e) (list_insert (edge_v1 e) vs), es @ [e]))"

text \<open>\<open>handleBatchInsert\<close>: the vertex set and edge array start empty.\<close>

definition batch_items :: "string \<Rightarrow> label list \<times> cedge list" where
  "batch_items batchData = add_lines (js_split CHR ''\<newline>'' batchData) ([], [])"

text \<open>
  \<open>handleFileUpload\<close>: the set starts as \<open>new Set(vertices)\<close> and the
  array as \<open>[...edges]\<close>, the client's current lists.
\<close>

definition file_items :: "label list \<Rightarrow> cedge list \<Rightarrow> string \<Rightarrow> label list \<times> cedge list" where
  "file_items vertices edges fileContent =
     add_lines (js_split CHR ''\<newline>'' fileContent) (list_of_set_order vertices, edges)"

definition endpoints :: "cedge list \<Rightarrow> label set" where
  "endpoints es = (\<Union>e\<in>set es. {edge_v1 e, edge_v2 e})"

text \<open>
  The line format the text box asks for (lines 440--442: \<open>v1 v2 peso\<close> or
  \<open>v1 v2\<close>, separated by spaces), printing a weight as its decimal digits, and
  the edge array that line is meant to become.
\<close>

definition format_line :: "label \<times> label \<times> nat option \<Rightarrow> string" where
  "format_line e = (case e of (a, b, None) \<Rightarrow> a @ CHR '' '' # b | (a, b, Some n) \<Rightarrow> a @ CHR '' '' # b @ CHR '' '' # dec_string n)"

definition no_ws :: "string \<Rightarrow> bool" where
  "no_ws s \<longleftrightarrow> s \<noteq> [] \<and> (\<forall>c\<in>set s. \<not> js_ws c)"

fun cedge_of_format :: "label \<times> label \<times> nat option \<Rightarrow> cedge" where
  "cedge_of_format (a, b, None) = Edge2 a b"
| "cedge_of_format (a, b, Some n) = Edge3 a b (JNumber (Fin (of_nat n)))"

section \<open>Properties\<close>

lemma endpoints_append [simp]: "endpoints (es @ [e]) = endpoints es \<union> {edge_v1 e, edge_v2 e}"
  by (auto simp: endpoints_def)

lemma endpoints_Nil [simp]: "endpoints [] = {}"
  by (simp add: endpoints_def)

lemma add_lines_edges: "snd (add_lines ls (vs, es)) = es @ List.map_filter batch_line ls"
  by (induction ls arbitrary: vs es) (auto simp: List.map_filter_simps split: option.splits)

lemma add_lines_vertices:
  "set (fst (add_lines ls (vs, es))) = set vs \<union> endpoints (List.map_filter batch_line ls)"
proof (induction ls arbitrary: vs es)
  case Nil
  then show ?case by simp
next
  case (Cons l ls)
  then show ?case
    by (auto simp: List.map_filter_simps endpoints_def split: option.splits)
qed

lemma add_lines_distinct: "distinct (fst (add_lines ls (vs, es))) = distinct vs"
  by (induction ls arbitrary: vs es) (auto split: option.splits)

lemma batch_items_edges: "snd (batch_items t) = List.map_filter batch_line (js_split CHR ''\<newline>'' t)"
  by (simp add: batch_items_def add_lines_edges)

lemma file_items_edges:
  "snd (file_items vs es t) = es @ snd (batch_items t)"
  by (simp add: file_items_def add_lines_edges batch_items_edges)

lemma js_trim_id:
  assumes "s \<noteq> []" and "\<not> js_ws (hd s)" and "\<not> js_ws (last s)"
  shows "js_trim s = s"
proof -
  have "dropWhile js_ws s = s" using assms(1,2) by (cases s) auto
  moreover have "dropWhile js_ws (rev s) = rev s" using assms(1,3) by (cases "rev s") (auto simp: last_rev[symmetric])
  ultimately show ?thesis by (simp add: js_trim_def)
qed

lemma dec_string_no_ws: "no_ws (dec_string n)"
  using dec_string_digits by (fastforce simp: no_ws_def is_digit_def js_ws_def)

lemma no_ws_space: "no_ws s \<Longrightarrow> CHR '' '' \<notin> set s"
  by (auto simp: no_ws_def js_ws_def)

lemma no_ws_newline: "no_ws s \<Longrightarrow> CHR ''\<newline>'' \<notin> set s"
  by (auto simp: no_ws_def js_ws_def)

lemma no_ws_ends: "no_ws s \<Longrightarrow> \<not> js_ws (hd s) \<and> \<not> js_ws (last s)"
  by (auto simp: no_ws_def)

lemma batch_line_format:
  assumes "no_ws a" and "no_ws b"
  shows "batch_line (format_line (a, b, None)) = Some (Edge2 a b)"
    and "batch_line (format_line (a, b, Some n)) = Some (Edge3 a b (JNumber (Fin (of_nat n))))"
proof -
  have t1: "js_trim (a @ CHR '' '' # b) = a @ CHR '' '' # b"
    using assms by (intro js_trim_id) (auto simp: no_ws_def js_ws_def)
  have s1: "js_split CHR '' '' (a @ CHR '' '' # b) = [a, b]"
    using assms by (simp add: js_split_append_sep js_split_no_sep no_ws_space)
  show "batch_line (format_line (a, b, None)) = Some (Edge2 a b)"
    by (simp add: batch_line_def format_line_def t1 s1)
  have d: "no_ws (dec_string n)" by (rule dec_string_no_ws)
  have t2: "js_trim (a @ CHR '' '' # b @ CHR '' '' # dec_string n) = a @ CHR '' '' # b @ CHR '' '' # dec_string n"
    using assms d by (intro js_trim_id) (auto simp: no_ws_def js_ws_def)
  have s2: "js_split CHR '' '' (a @ CHR '' '' # b @ CHR '' '' # dec_string n) = [a, b, dec_string n]"
    using assms d by (simp add: js_split_append_sep js_split_no_sep no_ws_space)
  show "batch_line (format_line (a, b, Some n)) = Some (Edge3 a b (JNumber (Fin (of_nat n))))"
    by (simp add: batch_line_def format_line_def t2 s2 parse_float_dec_string)
qed

lemma format_line_no_newline:
  "no_ws a \<Longrightarrow> no_ws b \<Longrightarrow> CHR ''\<newline>'' \<notin> set (format_line (a, b, w))"
  using dec_string_no_ws[THEN no_ws_newline] by (cases w) (auto simp: format_line_def no_ws_newline)

lemma add_lines_vertices_fold:
  "fst (add_lines ls (vs, es)) =
     fold list_insert (concat (map (\<lambda>e. [edge_v1 e, edge_v2 e]) (List.map_filter batch_line ls))) vs"
  by (induction ls arbitrary: vs es) (auto simp: List.map_filter_simps split: option.splits)

lemma batch_items_format:
  assumes "es \<noteq> []" and "\<forall>(a, b, w)\<in>set es. no_ws a \<and> no_ws b"
  shows "snd (batch_items (js_join CHR ''\<newline>'' (map format_line es))) = map cedge_of_format es"
proof -
  have nl: "\<forall>p\<in>set (map format_line es). CHR ''\<newline>'' \<notin> set p"
    using assms(2) format_line_no_newline by fastforce
  have split: "js_split CHR ''\<newline>'' (js_join CHR ''\<newline>'' (map format_line es)) = map format_line es"
    using assms(1) nl by (simp add: js_split_join)
  have "List.map_filter batch_line (map format_line es) = map cedge_of_format es"
    using assms(2)
  proof (induction es)
    case Nil
    then show ?case by (simp add: List.map_filter_simps)
  next
    case (Cons e es)
    obtain a b w where e: "e = (a, b, w)" by (cases e) auto
    with Cons.prems have "no_ws a" "no_ws b" by auto
    then have "batch_line (format_line e) = Some (cedge_of_format e)"
      using e batch_line_format by (cases w) auto
    with Cons show ?case by (simp add: List.map_filter_simps)
  qed
  then show ?thesis by (simp add: batch_items_edges split)
qed

lemma batch_items_vertices: "set (fst (batch_items t)) = endpoints (snd (batch_items t))"
  using add_lines_vertices [of _ "[]" "[]"] add_lines_edges [of _ "[]" "[]"]
  by (simp add: batch_items_def)

end
