(* ===== verification/GraphStore.thy ===== *)
theory GraphStore
  imports Prelude
begin

text \<open>
  The Graph Store and the Mutation Operations of the graph engine (spec
  sections 3, 4.1 and 4.2).  The engine is the Flask service at
  \<open>127.0.0.1:5000\<close> that \<open>src/src/App.js\<close> calls; its code is not part
  of the repository, so these definitions follow the spec's contract.  A graph
  holds its two mode flags, its vertex labels in insertion order and its edges
  as a list (multi-edges allowed), each edge an ordered pair with an optional
  weight.
\<close>

datatype engine_error = UnknownVertex | InvalidWeight | NegativeWeight | NoPath | InvalidMode

type_synonym gedge = "label \<times> label \<times> rat option"

record graph =
  is_directed :: bool
  is_weighted :: bool
  gverts :: "label list"
  gedges :: "gedge list"

section \<open>Store operations\<close>

definition reset :: "bool \<Rightarrow> bool \<Rightarrow> graph" where
  "reset d w = \<lparr>is_directed = d, is_weighted = w, gverts = [], gedges = []\<rparr>"

definition add_vertex :: "label \<Rightarrow> graph \<Rightarrow> graph" where
  "add_vertex v g = g\<lparr>gverts := list_insert v (gverts g)\<rparr>"

text \<open>A weight must be given exactly when the graph is weighted.\<close>

definition weight_ok :: "bool \<Rightarrow> rat option \<Rightarrow> bool" where
  "weight_ok weighted w \<longleftrightarrow> weighted = (w \<noteq> None)"

definition add_edge :: "label \<Rightarrow> label \<Rightarrow> rat option \<Rightarrow> graph \<Rightarrow> engine_error + graph" where
  "add_edge a b w g =
     (if \<not> weight_ok (is_weighted g) w then Inl InvalidWeight
      else (let g' = add_vertex b (add_vertex a g) in Inr (g'\<lparr>gedges := gedges g' @ [(a, b, w)]\<rparr>)))"

definition graph_order :: "graph \<Rightarrow> nat" where
  "graph_order g = length (gverts g)"

definition graph_size :: "graph \<Rightarrow> nat" where
  "graph_size g = length (gedges g)"

section \<open>Adjacency and degree\<close>

text \<open>The vertices one edge leads to from \<open>v\<close>, in the direction of the mode.\<close>

definition edge_step :: "bool \<Rightarrow> label \<Rightarrow> gedge \<Rightarrow> label list" where
  "edge_step directed v e =
     (case e of (a, b, _) \<Rightarrow>
        if a = v then [b] else if \<not> directed \<and> b = v then [a] else [])"

definition adj_list :: "label \<Rightarrow> graph \<Rightarrow> label list" where
  "adj_list v g = list_of_set_order (concat (map (edge_step (is_directed g) v) (gedges g)))"

definition neighbors :: "label \<Rightarrow> graph \<Rightarrow> engine_error + label list" where
  "neighbors v g = (if v \<notin> set (gverts g) then Inl UnknownVertex else Inr (adj_list v g))"

definition are_adjacent :: "label \<Rightarrow> label \<Rightarrow> graph \<Rightarrow> engine_error + bool" where
  "are_adjacent a b g =
     (if a \<notin> set (gverts g) \<or> b \<notin> set (gverts g) then Inl UnknownVertex
      else Inr (b \<in> set (adj_list a g)))"

definition out_degree :: "label \<Rightarrow> graph \<Rightarrow> nat" where
  "out_degree v g = length (filter (\<lambda>(a, b, w). a = v) (gedges g))"

definition in_degree :: "label \<Rightarrow> graph \<Rightarrow> nat" where
  "in_degree v g = length (filter (\<lambda>(a, b, w). b = v) (gedges g))"

text \<open>
  An undirected degree counts the incident edges, a self-loop twice; a directed
  one reports out-degree and in-degree.
\<close>

datatype degree_info = Degree nat | DegreeInOut nat nat

definition degree :: "label \<Rightarrow> graph \<Rightarrow> engine_error + degree_info" where
  "degree v g =
     (if v \<notin> set (gverts g) then Inl UnknownVertex
      else if is_directed g then Inr (DegreeInOut (out_degree v g) (in_degree v g))
      else Inr (Degree (out_degree v g + in_degree v g)))"

fun degree_total :: "degree_info \<Rightarrow> nat" where
  "degree_total (Degree d) = d"
| "degree_total (DegreeInOut dout din) = dout + din"

section \<open>Batch insertion\<close>

text \<open>
  \<open>insertBatch\<close>: every vertex, then every edge in order; an edge whose
  weight contradicts the mode is skipped and its index recorded.
\<close>

fun add_edges :: "nat \<Rightarrow> gedge list \<Rightarrow> graph \<Rightarrow> graph \<times> nat list" where
  "add_edges i [] g = (g, [])"
| "add_edges i ((a, b, w) # es) g =
     (case add_edge a b w g of
        Inl _ \<Rightarrow> (let (g', sk) = add_edges (Suc i) es g in (g', i # sk))
      | Inr g1 \<Rightarrow> add_edges (Suc i) es g1)"

definition insert_batch :: "label list \<Rightarrow> gedge list \<Rightarrow> graph \<Rightarrow> graph \<times> nat list" where
  "insert_batch vs es g = add_edges 0 es (fold add_vertex vs g)"

section \<open>Invariant\<close>

text \<open>
  Vertex labels are unique, every edge endpoint is a vertex, and every weight
  agrees with the mode.
\<close>

definition graph_inv :: "graph \<Rightarrow> bool" where
  "graph_inv g \<longleftrightarrow> distinct (gverts g) \<and>
     (\<forall>(a, b, w)\<in>set (gedges g). a \<in> set (gverts g) \<and> b \<in> set (gverts g) \<and> weight_ok (is_weighted g) w)"

declare reset_def [graph_simps] add_vertex_def [graph_simps] add_edge_def [graph_simps]
  graph_order_def [graph_simps] graph_size_def [graph_simps] weight_ok_def [graph_simps]

section \<open>Properties of the store\<close>

lemma mode_add_vertex [simp]:
  "is_directed (add_vertex v g) = is_directed g" "is_weighted (add_vertex v g) = is_weighted g"
  "gedges (add_vertex v g) = gedges g" "gverts (add_vertex v g) = list_insert v (gverts g)"
  by (simp_all add: add_vertex_def)

lemma add_edge_Inr:
  "add_edge a b w g = Inr g' \<longleftrightarrow> weight_ok (is_weighted g) w \<and>
     g' = g\<lparr>gverts := list_insert b (list_insert a (gverts g)), gedges := gedges g @ [(a, b, w)]\<rparr>"
  by (auto simp: add_edge_def add_vertex_def Let_def)

lemma add_edge_Inl:
  "add_edge a b w g = Inl e \<longleftrightarrow> \<not> weight_ok (is_weighted g) w \<and> e = InvalidWeight"
  by (auto simp: add_edge_def Let_def)

lemma graph_inv_reset: "graph_inv (reset d w)"
  by (simp add: graph_inv_def reset_def)

lemma graph_inv_add_vertex: "graph_inv g \<Longrightarrow> graph_inv (add_vertex v g)"
  by (auto simp: graph_inv_def)

lemma graph_inv_add_edge: "graph_inv g \<Longrightarrow> add_edge a b w g = Inr g' \<Longrightarrow> graph_inv g'"
  by (auto simp: graph_inv_def add_edge_Inr)

lemma graph_inv_fold_add_vertex: "graph_inv g \<Longrightarrow> graph_inv (fold add_vertex vs g)"
  by (induction vs arbitrary: g) (auto simp: graph_inv_add_vertex)

lemma graph_inv_add_edges: "graph_inv g \<Longrightarrow> graph_inv (fst (add_edges i es g))"
proof (induction i es g rule: add_edges.induct)
  case (1 i g)
  then show ?case by simp
next
  case (2 i a b w es g)
  then show ?case
    by (auto simp: graph_inv_add_edge split: sum.splits prod.splits)
qed

lemma graph_inv_insert_batch: "graph_inv g \<Longrightarrow> graph_inv (fst (insert_batch vs es g))"
  by (simp add: insert_batch_def graph_inv_add_edges graph_inv_fold_add_vertex)

lemma add_edges_mode:
  "is_directed (fst (add_edges i es g)) = is_directed g \<and> is_weighted (fst (add_edges i es g)) = is_weighted g"
  by (induction i es g rule: add_edges.induct) (auto simp: add_edge_Inr split: sum.splits prod.splits)

lemma add_edges_graph:
  "fst (add_edges i es g) =
     g\<lparr>gverts := fold (\<lambda>(a, b, w) vs. list_insert b (list_insert a vs))
                       (filter (\<lambda>(a, b, w). weight_ok (is_weighted g) w) es) (gverts g),
       gedges := gedges g @ filter (\<lambda>(a, b, w). weight_ok (is_weighted g) w) es\<rparr>"
  by (induction i es g rule: add_edges.induct)
     (auto simp: add_edge_def add_vertex_def Let_def split: prod.splits)

lemma add_edges_skipped:
  "k \<in> set (snd (add_edges i es g)) \<longleftrightarrow>
     i \<le> k \<and> k < i + length es \<and> \<not> weight_ok (is_weighted g) (snd (snd (es ! (k - i))))"
proof (induction i es g arbitrary: k rule: add_edges.induct)
  case (1 i g)
  then show ?case by simp
next
  case (2 i a b w es g)
  show ?case
  proof (cases "weight_ok (is_weighted g) w")
    case True
    with 2(2)[of _ k] show ?thesis
      by (cases "k = i") (auto simp: add_edge_def add_vertex_def Let_def nth_Cons' split: prod.splits)
  next
    case False
    with 2(1)[of _ k] show ?thesis
      by (cases "k = i") (auto simp: add_edge_def Let_def nth_Cons' split: prod.splits)
  qed
qed

lemma edge_step_eq:
  "edge_step d v (x, y, w) = (if x = v then [y] else if \<not> d \<and> y = v then [x] else [])"
  by (simp add: edge_step_def)

lemma edge_step_undirected:
  "b \<in> set (edge_step False a (x, y, w)) \<longleftrightarrow> (x = a \<and> y = b) \<or> (x = b \<and> y = a)"
proof (cases "x = a")
  case True
  then show ?thesis by (auto simp: edge_step_eq)
next
  case False
  then show ?thesis by (cases "y = a") (auto simp: edge_step_eq)
qed

lemma edge_step_sym: "b \<in> set (edge_step False a e) \<longleftrightarrow> a \<in> set (edge_step False b e)"
  by (cases e) (auto simp only: edge_step_undirected)

lemma adj_list_symmetric:
  "\<not> is_directed g \<Longrightarrow> b \<in> set (adj_list a g) \<longleftrightarrow> a \<in> set (adj_list b g)"
  by (auto simp: adj_list_def edge_step_sym)

lemma out_degree_sum:
  "graph_inv g \<Longrightarrow> (\<Sum>v\<leftarrow>gverts g. out_degree v g) = graph_size g"
  unfolding out_degree_def graph_size_def split_def
  by (rule sum_count_endpoint) (auto simp: graph_inv_def)

lemma in_degree_sum:
  "graph_inv g \<Longrightarrow> (\<Sum>v\<leftarrow>gverts g. in_degree v g) = graph_size g"
  unfolding in_degree_def graph_size_def split_def
  by (rule sum_count_endpoint) (auto simp: graph_inv_def)

lemma degree_total_sum:
  assumes "graph_inv g"
  shows "(\<Sum>v\<leftarrow>gverts g. case degree v g of Inr d \<Rightarrow> degree_total d | Inl _ \<Rightarrow> 0) = 2 * graph_size g"
proof -
  have "(\<Sum>v\<leftarrow>gverts g. case degree v g of Inr d \<Rightarrow> degree_total d | Inl _ \<Rightarrow> 0)
        = (\<Sum>v\<leftarrow>gverts g. out_degree v g + in_degree v g)"
    by (intro arg_cong[where f = sum_list] map_cong) (auto simp: degree_def)
  also have "\<dots> = 2 * graph_size g"
    using assms by (simp add: sum_list_addf out_degree_sum in_degree_sum)
  finally show ?thesis .
qed

lemma fold_add_vertex_keeps:
  "gedges (fold add_vertex vs g) = gedges g \<and> is_weighted (fold add_vertex vs g) = is_weighted g
   \<and> is_directed (fold add_vertex vs g) = is_directed g"
  by (induction vs arbitrary: g) auto

lemma insert_batch_edges:
  "gedges (fst (insert_batch vs es g)) = gedges g @ filter (\<lambda>(a, b, w). weight_ok (is_weighted g) w) es"
  by (simp add: insert_batch_def add_edges_graph fold_add_vertex_keeps)

lemma graph_inv_filter_ok:
  "graph_inv g \<Longrightarrow> filter (\<lambda>(a, b, w). weight_ok (is_weighted g) w) (gedges g) = gedges g"
  by (auto simp: graph_inv_def filter_id_conv)

lemma add_edge_accepted:
  "weight_ok (is_weighted g) w \<Longrightarrow>
   add_edge a b w g = Inr (g\<lparr>gverts := list_insert b (list_insert a (gverts g)), gedges := gedges g @ [(a, b, w)]\<rparr>)"
  by (simp add: add_edge_Inr)

lemma add_edge_rejected: "\<not> weight_ok (is_weighted g) w \<Longrightarrow> add_edge a b w g = Inl InvalidWeight"
  by (simp add: add_edge_Inl)

lemma unweighted_no_weights:
  "graph_inv g \<Longrightarrow> \<not> is_weighted g \<Longrightarrow> (a, b, w) \<in> set (gedges g) \<Longrightarrow> w = None"
  by (auto simp: graph_inv_def weight_ok_def)

end
