(* ===== verification/Paths.thy ===== *)
theory Paths
  imports GraphStore
begin

text \<open>
  Shortest paths of the graph engine (spec section 4.3), modelled from the
  spec: breadth-first search on unweighted graphs, Dijkstra's algorithm on
  weighted ones.  Neighbours are visited in the order of \<open>adj_list\<close> (edge
  insertion order), and a vertex keeps the first path that discovered it, so
  ties between equally short paths are broken deterministically.  Both loops
  run on fuel: one round per vertex of the graph plus one is enough
  for BFS (\<open>bfs_path_correct\<close> in \<open>BfsCorrect\<close>), so running out of fuel is \<open>None\<close> and never
  a silent answer.
\<close>

section \<open>Breadth-first search\<close>

text \<open>
  One BFS layer: every frontier vertex, in order, marks its unvisited
  neighbours, in order, and hands each the path extended by it.  Paths are
  kept reversed (newest vertex first).
\<close>

fun visit_nbrs :: "label list \<Rightarrow> label list \<Rightarrow> label list \<times> (label \<times> label list) list
                     \<Rightarrow> label list \<times> (label \<times> label list) list" where
  "visit_nbrs p [] acc = acc"
| "visit_nbrs p (u # us) (vis, nxt) =
     (if u \<in> set vis then visit_nbrs p us (vis, nxt)
      else visit_nbrs p us (vis @ [u], nxt @ [(u, u # p)]))"

fun expand :: "graph \<Rightarrow> (label \<times> label list) list \<Rightarrow> label list \<times> (label \<times> label list) list
                 \<Rightarrow> label list \<times> (label \<times> label list) list" where
  "expand g [] acc = acc"
| "expand g ((v, p) # fr) acc = expand g fr (visit_nbrs p (adj_list v g) acc)"

fun bfs :: "nat \<Rightarrow> graph \<Rightarrow> label \<Rightarrow> label list \<Rightarrow> (label \<times> label list) list
              \<Rightarrow> (engine_error + label list) option" where
  "bfs 0 g t vis fr = None"
| "bfs (Suc n) g t vis fr =
     (case find (\<lambda>(v, p). v = t) fr of
        Some (v, p) \<Rightarrow> Some (Inr (rev p))
      | None \<Rightarrow>
          (if fr = [] then Some (Inl NoPath)
           else (let (vis', fr') = expand g fr (vis, []) in bfs n g t vis' fr')))"

definition bfs_path :: "graph \<Rightarrow> label \<Rightarrow> label \<Rightarrow> (engine_error + label list) option" where
  "bfs_path g s t = bfs (Suc (length (gverts g))) g t [s] [(s, [s])]"

section \<open>Dijkstra\<close>

text \<open>The weighted neighbours of \<open>v\<close> through one edge.\<close>

definition wedge_step :: "bool \<Rightarrow> label \<Rightarrow> gedge \<Rightarrow> (label \<times> rat) list" where
  "wedge_step directed v e =
     (case e of (a, b, w) \<Rightarrow>
        let c = (case w of Some x \<Rightarrow> x | None \<Rightarrow> 1) in
        if a = v then [(b, c)] else if \<not> directed \<and> b = v then [(a, c)] else [])"

definition nonneg_weights :: "graph \<Rightarrow> bool" where
  "nonneg_weights g \<longleftrightarrow> list_all (\<lambda>(a, b, w). case w of Some x \<Rightarrow> 0 \<le> x | None \<Rightarrow> True) (gedges g)"

record dstate =
  dist :: "label \<Rightarrow> rat option"
  prev :: "label \<Rightarrow> label option"
  settled :: "label list"

text \<open>The unsettled vertex of least known distance, the first one on ties.\<close>

fun pick_min :: "dstate \<Rightarrow> label list \<Rightarrow> (label \<times> rat) option" where
  "pick_min st [] = None"
| "pick_min st (v # vs) =
     (let best = pick_min st vs in
      case dist st v of
        None \<Rightarrow> best
      | Some d \<Rightarrow>
          (if v \<in> set (settled st) then best
           else (case best of None \<Rightarrow> Some (v, d)
                 | Some (u, du) \<Rightarrow> (if du < d then Some (u, du) else Some (v, d)))))"

text \<open>Relaxing the edges of \<open>u\<close>: a strictly shorter distance replaces the old one.\<close>

fun relax :: "label \<Rightarrow> rat \<Rightarrow> (label \<times> rat) list \<Rightarrow> dstate \<Rightarrow> dstate" where
  "relax u du [] st = st"
| "relax u du ((v, c) # vcs) st =
     relax u du vcs
       (if (case dist st v of None \<Rightarrow> True | Some dv \<Rightarrow> du + c < dv)
        then st\<lparr>dist := (dist st)(v \<mapsto> du + c), prev := (prev st)(v \<mapsto> u)\<rparr> else st)"

fun dijkstra_loop :: "nat \<Rightarrow> graph \<Rightarrow> dstate \<Rightarrow> dstate" where
  "dijkstra_loop 0 g st = st"
| "dijkstra_loop (Suc n) g st =
     (case pick_min st (gverts g) of
        None \<Rightarrow> st
      | Some (u, du) \<Rightarrow>
          dijkstra_loop n g
            (relax u du (concat (map (wedge_step (is_directed g) u) (gedges g)))
               (st\<lparr>settled := settled st @ [u]\<rparr>)))"

text \<open>Following \<open>prev\<close> back from the target, at most one step per vertex.\<close>

fun trace_back :: "nat \<Rightarrow> dstate \<Rightarrow> label \<Rightarrow> label \<Rightarrow> label list \<Rightarrow> label list option" where
  "trace_back 0 st s v acc = None"
| "trace_back (Suc n) st s v acc =
     (if v = s then Some (v # acc)
      else (case prev st v of None \<Rightarrow> None | Some u \<Rightarrow> trace_back n st s u (v # acc)))"

definition dijkstra_path :: "graph \<Rightarrow> label \<Rightarrow> label \<Rightarrow> (engine_error + label list \<times> rat) option" where
  "dijkstra_path g s t =
     (let st = dijkstra_loop (length (gverts g))  g
                 \<lparr>dist = Map.empty(s \<mapsto> 0), prev = Map.empty, settled = []\<rparr>
      in case dist st t of
           None \<Rightarrow> Some (Inl NoPath)
         | Some d \<Rightarrow> map_option (\<lambda>p. Inr (p, d)) (trace_back (length (gverts g)) st s t []))"

section \<open>The shortest-path query\<close>

text \<open>
  \<open>shortest_path g s t\<close>: unknown endpoints first, then the negative-weight
  check of weighted graphs, then the search; the length is the number of
  edges (BFS) or the sum of the weights (Dijkstra).
\<close>

definition shortest_path :: "graph \<Rightarrow> label \<Rightarrow> label \<Rightarrow> (engine_error + label list \<times> rat) option" where
  "shortest_path g s t =
     (if s \<notin> set (gverts g) \<or> t \<notin> set (gverts g) then Some (Inl UnknownVertex)
      else if is_weighted g then
        (if \<not> nonneg_weights g then Some (Inl NegativeWeight) else dijkstra_path g s t)
      else map_option (map_sum id (\<lambda>p. (p, of_nat (length p - 1)))) (bfs_path g s t))"

end
