(* ===== verification/Euler.thy ===== *)
theory Euler
  imports GraphStore
begin

text \<open>
  The Eulerian test of the graph engine (spec section 4.3), modelled from the
  spec.  Connectivity is computed as the set of vertices reachable from the
  first vertex of non-zero degree, by rounds of one-step extension; one round
  per vertex is enough, as every round that changes the set adds a vertex.
  Undirected graphs test even degrees (circuit) or exactly two odd degrees
  (path) among connected edges; directed graphs test balanced in- and
  out-degrees with strong connectivity (circuit), or at most one start and one
  end vertex with the underlying graph connected (path).  A graph without
  edges reports a circuit.
\<close>

datatype euler_result = EulerCircuit | EulerPath | NotEulerian

fun reach_rounds :: "nat \<Rightarrow> (label \<Rightarrow> label list) \<Rightarrow> label list \<Rightarrow> label list" where
  "reach_rounds 0 nb vs = vs"
| "reach_rounds (Suc n) nb vs =
     (let vs' = fold list_insert (concat (map nb vs)) vs
      in if vs' = vs then vs else reach_rounds n nb vs')"

definition reachable_from :: "graph \<Rightarrow> label \<Rightarrow> label list" where
  "reachable_from g s = reach_rounds (length (gverts g)) (\<lambda>v. adj_list v g) [s]"

definition reverse_graph :: "graph \<Rightarrow> graph" where
  "reverse_graph g = g\<lparr>gedges := map (\<lambda>(a, b, w). (b, a, w)) (gedges g)\<rparr>"

definition active :: "graph \<Rightarrow> label list" where
  "active g = filter (\<lambda>v. 0 < out_degree v g + in_degree v g) (gverts g)"

text \<open>Every vertex of non-zero degree is reachable from the first one, in \<open>g'\<close>.\<close>

definition active_reach :: "graph \<Rightarrow> graph \<Rightarrow> bool" where
  "active_reach g g' =
     (case active g of [] \<Rightarrow> True | v # _ \<Rightarrow> set (active g) \<subseteq> set (reachable_from g' v))"

definition weakly_connected :: "graph \<Rightarrow> bool" where
  "weakly_connected g = active_reach g (g\<lparr>is_directed := False\<rparr>)"

definition strongly_connected :: "graph \<Rightarrow> bool" where
  "strongly_connected g = (active_reach g g \<and> active_reach g (reverse_graph g))"

definition eulerian :: "graph \<Rightarrow> euler_result" where
  "eulerian g =
     (if gedges g = [] then EulerCircuit
      else if \<not> is_directed g then
        (let odds = filter (\<lambda>v. odd (out_degree v g + in_degree v g)) (gverts g)
         in if \<not> weakly_connected g then NotEulerian
            else if odds = [] then EulerCircuit
            else if length odds = 2 then EulerPath
            else NotEulerian)
      else
        (let starts = filter (\<lambda>v. out_degree v g = in_degree v g + 1) (gverts g);
             ends = filter (\<lambda>v. in_degree v g = out_degree v g + 1) (gverts g);
             unbalanced = filter (\<lambda>v. out_degree v g \<noteq> in_degree v g) (gverts g)
         in if unbalanced = [] \<and> strongly_connected g then EulerCircuit
            else if length starts \<le> 1 \<and> length ends \<le> 1
                    \<and> length unbalanced = length starts + length ends \<and> weakly_connected g
            then EulerPath
            else NotEulerian))"

end
