(* ===== verification/Protocol.thy ===== *)
theory Protocol
  imports BatchParser Paths Euler
begin

text \<open>
  The interface between the client (\<open>src/src/App.js\<close>) and the graph
  engine: the requests of spec section 6 as the client issues them (JSON bodies
  for the POST endpoints, URLs for the GET endpoints), the response payloads,
  and the HTTP outcome (a 2xx reply with its payload, an error status with an
  engine error, or an unknown route).  A server is any state transformer that
  answers a request; the client's handlers are stated over this type, and the
  engine of \<open>Server\<close> is one instance.  The JSON conversions are
  \<open>JSON.stringify\<close> and \<open>JSON.parse\<close> on the client's edge arrays:
  \<open>NaN\<close>, \<open>Infinity\<close> and \<open>undefined\<close> array slots become \<open>null\<close>, an
  \<open>undefined\<close> property is left out.
\<close>

datatype wire_weight = WAbsent | WNull | WNum rat

type_synonym wire_edge = "label \<times> label \<times> wire_weight"

datatype request =
    CreateGraph bool bool
  | AddVertexReq label
  | AddEdgeReq label label wire_weight
  | InsertBatchReq "label list" "wire_edge list"
  | Get string

datatype resp =
    RMessage string
  | RItems "label list" "wire_edge list"
  | RNeighbors "label list"
  | RResult bool
  | RDegree degree_info
  | RPath "label list" rat
  | REuler euler_result
  | RInfo nat nat

datatype reply = Ok resp | Fail engine_error | NotFound

type_synonym 's server = "'s \<Rightarrow> request \<Rightarrow> 's \<times> reply"

definition api :: string where
  "api = ''http://127.0.0.1:5000''"

section \<open>JSON encoding of the client's values\<close>

fun json_num :: "jsnum \<Rightarrow> wire_weight" where
  "json_num (Fin r) = WNum r"
| "json_num _ = WNull"

text \<open>An array slot: \<open>undefined\<close> is written as \<open>null\<close>.\<close>

fun json_slot :: "jsval \<Rightarrow> wire_weight" where
  "json_slot JUndefined = WNull"
| "json_slot JNull = WNull"
| "json_slot (JNumber n) = json_num n"

text \<open>An object property: \<open>undefined\<close> leaves the key out.\<close>

fun json_prop :: "jsval \<Rightarrow> wire_weight" where
  "json_prop JUndefined = WAbsent"
| "json_prop JNull = WNull"
| "json_prop (JNumber n) = json_num n"

fun wire_of_cedge :: "cedge \<Rightarrow> wire_edge" where
  "wire_of_cedge (Edge2 a b) = (a, b, WAbsent)"
| "wire_of_cedge (Edge3 a b w) = (a, b, json_slot w)"

fun cedge_of_wire :: "wire_edge \<Rightarrow> cedge" where
  "cedge_of_wire (a, b, WAbsent) = Edge2 a b"
| "cedge_of_wire (a, b, WNull) = Edge3 a b JNull"
| "cedge_of_wire (a, b, WNum r) = Edge3 a b (JNumber (Fin r))"

end
