(* ===== verification/Client.thy ===== *)
theory Client
  imports Protocol
begin

text \<open>
  The React component \<open>App\<close> of \<open>src/src/App.js\<close>: its state (the
  \<open>useState\<close> hooks, lines 26--58) as a record, and each event handler as a
  function from the client state and the server's state to the new pair.  The
  handlers are stated over any server of type \<open>'s server\<close> (\<open>Protocol\<close>),
  so the client's facts hold for every engine that speaks the interface.  An
  \<open>await axios\<close> call is one call of the server; a reply with an error
  status or an unknown route takes the handler's \<open>catch\<close> branch.
  State updates run in program order and \<open>fetchGraphInfo()\<close>, which the
  handlers start without awaiting, runs right after its caller's updates.
  \<open>console.log\<close>, \<open>console.error\<close> and \<open>alert\<close> have no effect on
  the state and are not modelled.
\<close>

text \<open>A JavaScript value that may also be \<open>null\<close> or \<open>undefined\<close>.\<close>

datatype 'a jsopt = JsNull | JsUndef | JsVal 'a

datatype degree_msg = DMEmptyArray | DMUndef | DMVal degree_info

datatype path_val = PathStr string | PathUndef | PathList "label list"

record client_state =
  directed :: bool
  weighted :: bool
  vertices :: "label list"
  edges :: "cedge list"
  newVertex :: string
  startVertex :: string
  endVertex :: string
  weight :: string
  adjVertex :: string
  degreeMessage :: degree_msg
  error :: "string jsopt"
  degreeVertex :: string
  adjVertices :: "label list"
  pathStart :: string
  pathEnd :: string
  shortestPath :: path_val
  shortestPathLength :: "rat jsopt"
  graphInfo :: "nat jsopt \<times> nat jsopt"
  selectedFile :: "string option"
  insertMode :: string
  vertex1 :: string
  vertex2 :: string
  adjResult :: "bool jsopt"
  batchData :: string
  eulerianResult :: "euler_result jsopt"

definition init_client :: client_state where
  "init_client =
     \<lparr>directed = False, weighted = False, vertices = [], edges = [], newVertex = [],
      startVertex = [], endVertex = [], weight = [], adjVertex = [],
      degreeMessage = DMEmptyArray, error = JsNull, degreeVertex = [], adjVertices = [],
      pathStart = [], pathEnd = [], shortestPath = PathStr [], shortestPathLength = JsNull,
      graphInfo = (JsVal 0, JsVal 0), selectedFile = None, insertMode = ''batch'',
      vertex1 = [], vertex2 = [], adjResult = JsNull, batchData = [], eulerianResult = JsNull\<rparr>"

section \<open>Reading the response payloads\<close>

text \<open>\<open>response.data.vertices || []\<close> and \<open>response.data.edges || []\<close>.\<close>

fun resp_vertices :: "resp \<Rightarrow> label list" where
  "resp_vertices (RItems vs es) = vs"
| "resp_vertices _ = []"

fun resp_edges :: "resp \<Rightarrow> cedge list" where
  "resp_edges (RItems vs es) = map cedge_of_wire es"
| "resp_edges _ = []"

section \<open>Request URLs\<close>

text \<open>
  The template literals of the GET requests (lines 72, 227, 241 and 254): the
  typed labels are spliced into the query string as they are, without
  \<open>encodeURIComponent\<close>.
\<close>

definition verify_adj_url :: "string \<Rightarrow> string \<Rightarrow> string" where
  "verify_adj_url a b = api @ ''/verify_adj?vertex1='' @ a @ ''&vertex2='' @ b"

definition adjacency_url :: "string \<Rightarrow> string" where
  "adjacency_url v = api @ ''/adjacency?vertex='' @ v"

definition degree_url :: "string \<Rightarrow> string" where
  "degree_url v = api @ ''/degree?vertex='' @ v"

definition shortest_path_url :: "string \<Rightarrow> string \<Rightarrow> string" where
  "shortest_path_url s t = api @ ''/shortest_path?vertex_start='' @ s @ ''&vertex_end='' @ t"

section \<open>Handlers\<close>

definition fetchGraphInfo :: "'s server \<Rightarrow> client_state \<times> 's \<Rightarrow> client_state \<times> 's" where
  "fetchGraphInfo srv cs =
     (let (c, s) = cs; (s', r) = srv s (Get (api @ ''/get_graph_info''))
      in case r of
           Ok (RInfo ord sz) \<Rightarrow> (c\<lparr>graphInfo := (JsVal ord, JsVal sz)\<rparr>, s')
         | Ok _ \<Rightarrow> (c\<lparr>graphInfo := (JsUndef, JsUndef)\<rparr>, s')
         | _ \<Rightarrow> (c, s'))"

definition handleCheckEulerian :: "'s server \<Rightarrow> client_state \<times> 's \<Rightarrow> client_state \<times> 's" where
  "handleCheckEulerian srv cs =
     (let (c, s) = cs; (s', r) = srv s (Get (api @ ''/check_eulerian''))
      in case r of
           Ok (REuler e) \<Rightarrow> (c\<lparr>eulerianResult := JsVal e\<rparr>, s')
         | Ok _ \<Rightarrow> (c\<lparr>eulerianResult := JsUndef\<rparr>, s')
         | _ \<Rightarrow> (c, s'))"

definition handleVerifyAdjacency :: "'s server \<Rightarrow> client_state \<times> 's \<Rightarrow> client_state \<times> 's" where
  "handleVerifyAdjacency srv cs =
     (let (c, s) = cs;
          (s', r) = srv s (Get (verify_adj_url (vertex1 c) (vertex2 c)))
      in case r of
           Ok (RResult b) \<Rightarrow> (c\<lparr>adjResult := JsVal b\<rparr>, s')
         | Ok _ \<Rightarrow> (c\<lparr>adjResult := JsUndef\<rparr>, s')
         | _ \<Rightarrow> (c, s'))"

definition handleBatchInsert :: "'s server \<Rightarrow> client_state \<times> 's \<Rightarrow> client_state \<times> 's" where
  "handleBatchInsert srv cs =
     (let (c, s) = cs;
          (vs, es) = batch_items (batchData c);
          (s', r) = srv s (InsertBatchReq vs (map wire_of_cedge es))
      in case r of
           Ok d \<Rightarrow> fetchGraphInfo srv (c\<lparr>vertices := resp_vertices d, edges := resp_edges d\<rparr>, s')
         | _ \<Rightarrow> (c, s'))"

definition handleGraphCreation :: "'s server \<Rightarrow> client_state \<times> 's \<Rightarrow> client_state \<times> 's" where
  "handleGraphCreation srv cs =
     (let (c, s) = cs; (s', r) = srv s (CreateGraph (directed c) (weighted c))
      in case r of
           Ok _ \<Rightarrow> fetchGraphInfo srv (c\<lparr>vertices := [], edges := []\<rparr>, s')
         | _ \<Rightarrow> (c, s'))"

definition handleFileChange :: "string option \<Rightarrow> client_state \<Rightarrow> client_state" where
  "handleFileChange file c = c\<lparr>selectedFile := file\<rparr>"

text \<open>
  \<open>handleFileUpload\<close>: without a selected file it only alerts.  The file's
  contents are read (\<open>FileReader\<close>), merged into the client's current lists,
  stored, and the merged lists are sent as one batch.
\<close>

definition handleFileUpload :: "'s server \<Rightarrow> client_state \<times> 's \<Rightarrow> client_state \<times> 's" where
  "handleFileUpload srv cs =
     (let (c, s) = cs
      in case selectedFile c of
           None \<Rightarrow> (c, s)
         | Some fileContent \<Rightarrow>
             (let (nv, ne) = file_items (vertices c) (edges c) fileContent;
                  c1 = c\<lparr>vertices := nv, edges := ne\<rparr>;
                  (s', r) = srv s (InsertBatchReq nv (map wire_of_cedge ne))
              in case r of
                   Ok d \<Rightarrow> (c1\<lparr>vertices := resp_vertices d, edges := resp_edges d\<rparr>, s')
                 | _ \<Rightarrow> (c1, s')))"

definition handleAddVertex :: "'s server \<Rightarrow> client_state \<times> 's \<Rightarrow> client_state \<times> 's" where
  "handleAddVertex srv cs =
     (let (c, s) = cs; (s', r) = srv s (AddVertexReq (newVertex c))
      in case r of
           Ok _ \<Rightarrow> (c\<lparr>vertices := vertices c @ [newVertex c], newVertex := []\<rparr>, s')
         | _ \<Rightarrow> (c, s'))"

definition handleAddEdge :: "'s server \<Rightarrow> client_state \<times> 's \<Rightarrow> client_state \<times> 's" where
  "handleAddEdge srv cs =
     (let (c, s) = cs;
          w = (if weighted c then JNumber (parse_float (weight c)) else JUndefined);
          (s', r) = srv s (AddEdgeReq (startVertex c) (endVertex c) (json_prop w))
      in case r of
           Ok _ \<Rightarrow> (c\<lparr>edges := edges c @ [Edge3 (startVertex c) (endVertex c) w],
                      startVertex := [], endVertex := [], weight := []\<rparr>, s')
         | _ \<Rightarrow> (c, s'))"

definition adjacency_error :: string where
  "adjacency_error =
     ''Erro ao verificar adjac'' @ [char_of (234::nat)] @ ''ncia. Verifique se o v''
     @ [char_of (233::nat)] @ ''rtice existe.''"

definition handleCheckAdjacency :: "'s server \<Rightarrow> client_state \<times> 's \<Rightarrow> client_state \<times> 's" where
  "handleCheckAdjacency srv cs =
     (let (c, s) = cs; (s', r) = srv s (Get (adjacency_url (adjVertex c)))
      in case r of
           Ok (RNeighbors ns) \<Rightarrow> (c\<lparr>adjVertices := ns, error := JsNull\<rparr>, s')
         | Ok _ \<Rightarrow> (c\<lparr>adjVertices := [], error := JsNull\<rparr>, s')
         | _ \<Rightarrow> (c\<lparr>error := JsVal adjacency_error, adjVertices := []\<rparr>, s'))"

text \<open>
  axios rejects a reply with an error status with the message
  \<open>Request failed with status code N\<close>; the engine answers an unknown vertex
  or a missing path with 404 and the other errors with 400.
\<close>

fun status_code :: "reply \<Rightarrow> string" where
  "status_code (Fail UnknownVertex) = ''404''"
| "status_code (Fail NoPath) = ''404''"
| "status_code NotFound = ''404''"
| "status_code _ = ''400''"

definition handleCheckDegree :: "'s server \<Rightarrow> client_state \<times> 's \<Rightarrow> client_state \<times> 's" where
  "handleCheckDegree srv cs =
     (let (c, s) = cs; (s', r) = srv s (Get (degree_url (degreeVertex c)))
      in case r of
           Ok (RDegree d) \<Rightarrow> (c\<lparr>degreeMessage := DMVal d, error := JsVal []\<rparr>, s')
         | Ok _ \<Rightarrow> (c\<lparr>degreeMessage := DMUndef, error := JsVal []\<rparr>, s')
         | _ \<Rightarrow> (c\<lparr>error := JsVal (''Erro ao verificar grau: Request failed with status code ''
                                     @ status_code r)\<rparr>, s'))"

definition handleFindShortestPath :: "'s server \<Rightarrow> client_state \<times> 's \<Rightarrow> client_state \<times> 's" where
  "handleFindShortestPath srv cs =
     (let (c, s) = cs;
          (s', r) = srv s (Get (shortest_path_url (pathStart c) (pathEnd c)))
      in case r of
           Ok (RPath p l) \<Rightarrow> (c\<lparr>shortestPath := PathList p, shortestPathLength := JsVal l\<rparr>, s')
         | Ok _ \<Rightarrow> (c\<lparr>shortestPath := PathUndef, shortestPathLength := JsUndef\<rparr>, s')
         | _ \<Rightarrow> (c, s'))"

end
