(* ===== verification/Server.thy ===== *)
theory Server
  imports Protocol
begin

text \<open>
  The Request Handler of the graph engine (spec sections 4.4, 6 and 7),
  modelled from the spec, and the parts of the HTTP stack a GET request passes
  through: the browser's URL preprocessing (WHATWG URL parsing removes tab and
  newline characters and strips leading and trailing C0 controls and spaces,
  and the fragment after \<open>#\<close> is never sent) and the server's query-string
  decoding (pairs split at \<open>&\<close> and at the first \<open>=\<close>, \<open>+\<close> read as a
  space, \<open>%XX\<close> as the byte \<open>XX\<close>; the first occurrence of a key wins).
  A missing query argument is answered as an unknown vertex.  The engine's
  state is one graph; \<open>serve\<close> is an instance of \<open>graph server\<close>.
\<close>

section \<open>URL and query string\<close>

definition c0_or_space :: "char \<Rightarrow> bool" where
  "c0_or_space c \<longleftrightarrow> of_char c \<le> (32::nat)"

definition browser_url :: "string \<Rightarrow> string" where
  "browser_url u =
     (let u' = filter (\<lambda>c. c \<notin> {CHR 0x09, CHR 0x0A, CHR 0x0D}) u
      in rev (dropWhile c0_or_space (rev (dropWhile c0_or_space u'))))"

definition hex_digit :: "char \<Rightarrow> nat option" where
  "hex_digit c =
     (let n = of_char c :: nat in
      if 48 \<le> n \<and> n \<le> 57 then Some (n - 48)
      else if 65 \<le> n \<and> n \<le> 70 then Some (n - 55)
      else if 97 \<le> n \<and> n \<le> 102 then Some (n - 87) else None)"

fun unquote_plus :: "string \<Rightarrow> string" where
  "unquote_plus [] = []"
| "unquote_plus (c # cs) =
     (if c = CHR ''+'' then CHR '' '' # unquote_plus cs
      else if c = CHR ''%'' then
        (case cs of
           h1 # h2 # rest \<Rightarrow>
             (case (hex_digit h1, hex_digit h2) of
                (Some a, Some b) \<Rightarrow> char_of (16 * a + b) # unquote_plus rest
              | _ \<Rightarrow> c # unquote_plus cs)
         | _ \<Rightarrow> c # unquote_plus cs)
      else c # unquote_plus cs)"

text \<open>The route (everything before \<open>?\<close>) and the query of a request URL.\<close>

definition url_parts :: "string \<Rightarrow> string \<times> string" where
  "url_parts u =
     (let v = takeWhile (\<lambda>c. c \<noteq> CHR ''#'') (browser_url u)
      in (takeWhile (\<lambda>c. c \<noteq> CHR ''?'') v, drop 1 (dropWhile (\<lambda>c. c \<noteq> CHR ''?'') v)))"

definition query_args :: "string \<Rightarrow> (string \<times> string) list" where
  "query_args q =
     map (\<lambda>kv. (unquote_plus (takeWhile (\<lambda>c. c \<noteq> CHR ''='') kv),
                unquote_plus (drop 1 (dropWhile (\<lambda>c. c \<noteq> CHR ''='') kv))))
         (filter (\<lambda>kv. kv \<noteq> []) (js_split CHR ''&'' q))"

definition query_arg :: "string \<Rightarrow> string \<Rightarrow> string option" where
  "query_arg q k = map_of (query_args q) k"

text \<open>Labels and keys that travel through a query string unchanged.\<close>

definition url_safe :: "string \<Rightarrow> bool" where
  "url_safe v \<longleftrightarrow>
     (\<forall>c\<in>set v. c \<notin> {CHR ''&'', CHR ''#'', CHR ''+'', CHR ''%'', CHR 0x09, CHR 0x0A, CHR 0x0D})
     \<and> (v = [] \<or> \<not> c0_or_space (last v))"

definition query_key_ok :: "string \<Rightarrow> bool" where
  "query_key_ok k \<longleftrightarrow> k \<noteq> [] \<and> (\<forall>c\<in>set k. c \<notin> {CHR ''='', CHR ''&'', CHR ''+'', CHR ''%'', CHR ''#'', CHR 0x09, CHR 0x0A, CHR 0x0D})"

section \<open>Dispatch\<close>

definition msg_created :: string where "msg_created = ''Graph created''"
definition msg_vertex :: string where "msg_vertex = ''Vertex added''"
definition msg_edge :: string where "msg_edge = ''Edge added''"

fun weight_of_wire :: "wire_weight \<Rightarrow> rat option" where
  "weight_of_wire (WNum r) = Some r"
| "weight_of_wire _ = None"

fun wire_of_gedge :: "gedge \<Rightarrow> wire_edge" where
  "wire_of_gedge (a, b, None) = (a, b, WAbsent)"
| "wire_of_gedge (a, b, Some r) = (a, b, WNum r)"

definition result_reply :: "(engine_error + 'a) \<Rightarrow> ('a \<Rightarrow> resp) \<Rightarrow> reply" where
  "result_reply r f = (case r of Inl e \<Rightarrow> Fail e | Inr x \<Rightarrow> Ok (f x))"

definition serve_get :: "graph \<Rightarrow> string \<Rightarrow> reply" where
  "serve_get g u =
     (let (route, q) = url_parts u;
          arg1 = (\<lambda>k f. case query_arg q k of None \<Rightarrow> Fail UnknownVertex | Some v \<Rightarrow> f v)
      in if route = api @ ''/adjacency'' then
           arg1 ''vertex'' (\<lambda>v. result_reply (neighbors v g) RNeighbors)
         else if route = api @ ''/verify_adj'' then
           arg1 ''vertex1'' (\<lambda>a. arg1 ''vertex2'' (\<lambda>b. result_reply (are_adjacent a b g) RResult))
         else if route = api @ ''/degree'' then
           arg1 ''vertex'' (\<lambda>v. result_reply (degree v g) RDegree)
         else if route = api @ ''/shortest_path'' then
           arg1 ''vertex_start'' (\<lambda>s. arg1 ''vertex_end'' (\<lambda>t.
             case shortest_path g s t of
               None \<Rightarrow> Fail NoPath
             | Some r \<Rightarrow> result_reply r (\<lambda>(p, l). RPath p l)))
         else if route = api @ ''/check_eulerian'' then Ok (REuler (eulerian g))
         else if route = api @ ''/get_graph_info'' then Ok (RInfo (graph_order g) (graph_size g))
         else NotFound)"

definition serve :: "graph server" where
  "serve g rq =
     (case rq of
        CreateGraph d w \<Rightarrow> (reset d w, Ok (RMessage msg_created))
      | AddVertexReq v \<Rightarrow> (add_vertex v g, Ok (RMessage msg_vertex))
      | AddEdgeReq a b w \<Rightarrow>
          (case add_edge a b (weight_of_wire w) g of
             Inl e \<Rightarrow> (g, Fail e)
           | Inr g' \<Rightarrow> (g', Ok (RMessage msg_edge)))
      | InsertBatchReq vs es \<Rightarrow>
          (let g' = fst (insert_batch vs (map (\<lambda>(a, b, w). (a, b, weight_of_wire w)) es) g)
           in (g', Ok (RItems (gverts g') (map wire_of_gedge (gedges g')))))
      | Get u \<Rightarrow> (g, serve_get g u))"

section \<open>Properties of the dispatch\<close>

lemma serve_Get [simp]: "serve g (Get u) = (g, serve_get g u)"
  by (simp add: serve_def)

lemma serve_InsertBatch:
  "serve g (InsertBatchReq vs es) =
     (let g' = fst (insert_batch vs (map (\<lambda>(a, b, w). (a, b, weight_of_wire w)) es) g)
      in (g', Ok (RItems (gverts g') (map wire_of_gedge (gedges g')))))"
  by (simp add: serve_def)

lemma serve_AddVertex: "serve g (AddVertexReq v) = (add_vertex v g, Ok (RMessage msg_vertex))"
  by (simp add: serve_def)

lemma serve_AddEdge:
  "serve g (AddEdgeReq a b w) =
     (case add_edge a b (weight_of_wire w) g of Inl e \<Rightarrow> (g, Fail e) | Inr g' \<Rightarrow> (g', Ok (RMessage msg_edge)))"
  by (simp add: serve_def)

lemma serve_CreateGraph: "serve g (CreateGraph d w) = (reset d w, Ok (RMessage msg_created))"
  by (simp add: serve_def)

lemma serve_get_info: "serve_get g (api @ ''/get_graph_info'') = Ok (RInfo (graph_order g) (graph_size g))"
  by (simp add: serve_get_def url_parts_def browser_url_def c0_or_space_def api_def)

lemmas serve_simps = serve_Get serve_InsertBatch serve_AddVertex serve_AddEdge serve_CreateGraph

section \<open>URL decoding\<close>

lemma unquote_plus_id: "\<forall>c\<in>set s. c \<noteq> CHR ''+'' \<and> c \<noteq> CHR ''%'' \<Longrightarrow> unquote_plus s = s"
  by (induction s rule: unquote_plus.induct) auto

lemma browser_url_id:
  assumes "\<forall>c\<in>set u. c \<notin> {CHR 0x09, CHR 0x0A, CHR 0x0D}" and "u \<noteq> []"
    and "\<not> c0_or_space (hd u)" and "\<not> c0_or_space (last u)"
  shows "browser_url u = u"
proof -
  have f: "filter (\<lambda>c. c \<notin> {CHR 0x09, CHR 0x0A, CHR 0x0D}) u = u" using assms(1) by (simp add: filter_id_conv)
  have d1: "dropWhile c0_or_space u = u" using assms(2,3) by (cases u) auto
  have d2: "dropWhile c0_or_space (rev u) = rev u" using assms(2,4) by (cases "rev u") (auto simp: last_rev[symmetric])
  show ?thesis unfolding browser_url_def Let_def f d1 d2 by simp
qed

lemma url_parts_split:
  assumes "p \<noteq> []" and "\<not> c0_or_space (hd p)"
    and "\<forall>c\<in>set p. c \<notin> {CHR ''?'', CHR ''#'', CHR 0x09, CHR 0x0A, CHR 0x0D}"
    and "\<forall>c\<in>set q. c \<notin> {CHR ''#'', CHR 0x09, CHR 0x0A, CHR 0x0D}"
    and "q = [] \<or> \<not> c0_or_space (last q)"
  shows "url_parts (p @ CHR ''?'' # q) = (p, q)"
proof -
  have lst: "\<not> c0_or_space (last (p @ CHR ''?'' # q))"
    using assms(5) by (cases "q = []") (auto simp: c0_or_space_def)
  have b: "browser_url (p @ CHR ''?'' # q) = p @ CHR ''?'' # q"
    using assms(1-4) lst by (intro browser_url_id) auto
  have h: "takeWhile (\<lambda>c. c \<noteq> CHR ''#'') (p @ CHR ''?'' # q) = p @ CHR ''?'' # q"
    using assms(3,4) by (auto simp: takeWhile_eq_all_conv)
  have r: "takeWhile (\<lambda>c. c \<noteq> CHR ''?'') (p @ CHR ''?'' # q) = p"
    using assms(3) by (simp add: takeWhile_append2)
  have d: "dropWhile (\<lambda>c. c \<noteq> CHR ''?'') (p @ CHR ''?'' # q) = CHR ''?'' # q"
    using assms(3) by (simp add: dropWhile_append2)
  show ?thesis by (simp add: url_parts_def b h r d)
qed

lemma query_args_join:
  assumes "kvs \<noteq> []" and "\<forall>(k, v)\<in>set kvs. query_key_ok k \<and> url_safe v"
  shows "query_args (js_join CHR ''&'' (map (\<lambda>(k, v). k @ CHR ''='' # v) kvs)) = kvs"
proof -
  have pieces: "\<forall>p\<in>set (map (\<lambda>(k, v). k @ CHR ''='' # v) kvs). CHR ''&'' \<notin> set p"
  proof
    fix p assume "p \<in> set (map (\<lambda>(k, v). k @ CHR ''='' # v) kvs)"
    then obtain k v where kv: "(k, v) \<in> set kvs" and p: "p = k @ CHR ''='' # v" by auto
    with assms(2) have k: "\<forall>c\<in>set k. c \<noteq> CHR ''&''" and v: "\<forall>c\<in>set v. c \<noteq> CHR ''&''"
      by (fastforce simp: query_key_ok_def url_safe_def)+
    have "CHR ''&'' \<noteq> CHR ''=''" by simp
    with k v show "CHR ''&'' \<notin> set p" unfolding p by auto
  qed
  have sp: "js_split CHR ''&'' (js_join CHR ''&'' (map (\<lambda>(k, v). k @ CHR ''='' # v) kvs))
            = map (\<lambda>(k, v). k @ CHR ''='' # v) kvs"
    using assms(1) pieces by (simp add: js_split_join)
  have one: "(unquote_plus (takeWhile (\<lambda>c. c \<noteq> CHR ''='') (k @ CHR ''='' # v)),
              unquote_plus (drop 1 (dropWhile (\<lambda>c. c \<noteq> CHR ''='') (k @ CHR ''='' # v)))) = (k, v)"
    if "query_key_ok k" and "url_safe v" for k v
  proof -
    have "takeWhile (\<lambda>c. c \<noteq> CHR ''='') (k @ CHR ''='' # v) = k"
      using that(1) by (simp add: takeWhile_append2 query_key_ok_def)
    moreover have "dropWhile (\<lambda>c. c \<noteq> CHR ''='') (k @ CHR ''='' # v) = CHR ''='' # v"
      using that(1) by (simp add: dropWhile_append2 query_key_ok_def)
    moreover have "unquote_plus k = k" using that(1) by (intro unquote_plus_id) (auto simp: query_key_ok_def)
    moreover have "unquote_plus v = v" using that(2) by (intro unquote_plus_id) (auto simp: url_safe_def)
    ultimately show ?thesis by simp
  qed
  have m: "map (\<lambda>kv. (unquote_plus (takeWhile (\<lambda>c. c \<noteq> CHR ''='') kv),
                    unquote_plus (drop 1 (dropWhile (\<lambda>c. c \<noteq> CHR ''='') kv))))
          (map (\<lambda>(k, v). k @ CHR ''='' # v) kvs) = kvs"
    using assms(2)
  proof (induction kvs)
    case Nil
    then show ?case by simp
  next
    case (Cons kv kvs)
    obtain k v where kv: "kv = (k, v)" by (cases kv)
    with Cons.prems have "query_key_ok k" "url_safe v" by auto
    with one have "(unquote_plus (takeWhile (\<lambda>c. c \<noteq> CHR ''='') (k @ CHR ''='' # v)),
              unquote_plus (drop 1 (dropWhile (\<lambda>c. c \<noteq> CHR ''='') (k @ CHR ''='' # v)))) = (k, v)"
      by blast
    with Cons kv show ?case by simp
  qed
  have f: "filter (\<lambda>kv. kv \<noteq> []) (map (\<lambda>(k, v). k @ CHR ''='' # v) kvs) = map (\<lambda>(k, v). k @ CHR ''='' # v) kvs"
    by (auto simp: filter_id_conv)
  show ?thesis unfolding query_args_def sp f m ..
qed

lemma api_chars: "\<forall>c\<in>set api. c \<notin> {CHR ''?'', CHR ''#'', CHR 0x09, CHR 0x0A, CHR 0x0D}"
  by (simp add: api_def)

lemma api_hd: "\<not> c0_or_space (hd (api @ r))"
  by (simp add: api_def c0_or_space_def)

lemma url_one_arg:
  assumes "url_safe v" and "\<forall>c\<in>set r. c \<notin> {CHR ''?'', CHR ''#'', CHR 0x09, CHR 0x0A, CHR 0x0D}"
    and "query_key_ok k" and "r \<noteq> []"
  shows "url_parts ((api @ r) @ CHR ''?'' # (k @ CHR ''='' # v)) = (api @ r, k @ CHR ''='' # v)
         \<and> query_args (k @ CHR ''='' # v) = [(k, v)]"
proof
  show "url_parts ((api @ r) @ CHR ''?'' # (k @ CHR ''='' # v)) = (api @ r, k @ CHR ''='' # v)"
  proof (rule url_parts_split)
    show "api @ r \<noteq> []" by (simp add: api_def)
    show "\<not> c0_or_space (hd (api @ r))" by (rule api_hd)
    show "\<forall>c\<in>set (api @ r). c \<notin> {CHR ''?'', CHR ''#'', CHR 0x09, CHR 0x0A, CHR 0x0D}"
      using api_chars assms(2) by auto
    show "\<forall>c\<in>set (k @ CHR ''='' # v). c \<notin> {CHR ''#'', CHR 0x09, CHR 0x0A, CHR 0x0D}"
      using assms(1,3) by (auto simp: url_safe_def query_key_ok_def)
    show "k @ CHR ''='' # v = [] \<or> \<not> c0_or_space (last (k @ CHR ''='' # v))"
      using assms(1) by (auto simp: url_safe_def c0_or_space_def)
  qed
  have "query_args (js_join CHR ''&'' (map (\<lambda>(k, v). k @ CHR ''='' # v) [(k, v)])) = [(k, v)]"
    using assms by (intro query_args_join) auto
  then show "query_args (k @ CHR ''='' # v) = [(k, v)]" by simp
qed

lemma url_safe_chars: "url_safe v \<Longrightarrow> \<forall>c\<in>set v. c \<notin> {CHR ''#'', CHR 0x09, CHR 0x0A, CHR 0x0D}"
  by (auto simp: url_safe_def)

lemma query_key_chars: "query_key_ok k \<Longrightarrow> \<forall>c\<in>set k. c \<notin> {CHR ''#'', CHR 0x09, CHR 0x0A, CHR 0x0D}"
  by (auto simp: query_key_ok_def)

lemma url_two_args:
  assumes "url_safe v1" and "url_safe v2" and "\<forall>c\<in>set r. c \<notin> {CHR ''?'', CHR ''#'', CHR 0x09, CHR 0x0A, CHR 0x0D}"
    and "query_key_ok k1" and "query_key_ok k2" and "r \<noteq> []"
  shows "url_parts ((api @ r) @ CHR ''?'' # (k1 @ CHR ''='' # v1 @ CHR ''&'' # k2 @ CHR ''='' # v2))
           = (api @ r, k1 @ CHR ''='' # v1 @ CHR ''&'' # k2 @ CHR ''='' # v2)
         \<and> query_args (k1 @ CHR ''='' # v1 @ CHR ''&'' # k2 @ CHR ''='' # v2) = [(k1, v1), (k2, v2)]"
proof
  show "url_parts ((api @ r) @ CHR ''?'' # (k1 @ CHR ''='' # v1 @ CHR ''&'' # k2 @ CHR ''='' # v2))
           = (api @ r, k1 @ CHR ''='' # v1 @ CHR ''&'' # k2 @ CHR ''='' # v2)"
  proof (rule url_parts_split)
    show "api @ r \<noteq> []" by (simp add: api_def)
    show "\<not> c0_or_space (hd (api @ r))" by (rule api_hd)
    show "\<forall>c\<in>set (api @ r). c \<notin> {CHR ''?'', CHR ''#'', CHR 0x09, CHR 0x0A, CHR 0x0D}"
      using api_chars assms(3) by auto
    show "\<forall>c\<in>set (k1 @ CHR ''='' # v1 @ CHR ''&'' # k2 @ CHR ''='' # v2). c \<notin> {CHR ''#'', CHR 0x09, CHR 0x0A, CHR 0x0D}"
    proof -
      have "CHR ''='' \<notin> {CHR ''#'', CHR 0x09, CHR 0x0A, CHR 0x0D}" "CHR ''&'' \<notin> {CHR ''#'', CHR 0x09, CHR 0x0A, CHR 0x0D}"
        by simp_all
      with url_safe_chars[OF assms(1)] url_safe_chars[OF assms(2)]
           query_key_chars[OF assms(4)] query_key_chars[OF assms(5)]
      show ?thesis by (simp only: set_append set_simps ball_Un ball_simps) blast
    qed
    show "k1 @ CHR ''='' # v1 @ CHR ''&'' # k2 @ CHR ''='' # v2 = [] \<or>
          \<not> c0_or_space (last (k1 @ CHR ''='' # v1 @ CHR ''&'' # k2 @ CHR ''='' # v2))"
      using assms(2) by (auto simp: url_safe_def c0_or_space_def)
  qed
  have "query_args (js_join CHR ''&'' (map (\<lambda>(k, v). k @ CHR ''='' # v) [(k1, v1), (k2, v2)])) = [(k1, v1), (k2, v2)]"
    using assms by (intro query_args_join) auto
  then show "query_args (k1 @ CHR ''='' # v1 @ CHR ''&'' # k2 @ CHR ''='' # v2) = [(k1, v1), (k2, v2)]" by simp
qed

lemma serve_graph_inv: "graph_inv g \<Longrightarrow> graph_inv (fst (serve g rq))"
proof (cases rq)
  case (AddEdgeReq a b w)
  assume inv: "graph_inv g"
  show ?thesis
  proof (cases "add_edge a b (weight_of_wire w) g")
    case (Inl e)
    with inv AddEdgeReq show ?thesis by (simp add: serve_AddEdge)
  next
    case (Inr g')
    with inv have "graph_inv g'" by (rule graph_inv_add_edge)
    with Inr AddEdgeReq show ?thesis by (simp add: serve_AddEdge)
  qed
qed (simp_all add: serve_def graph_inv_reset graph_inv_add_vertex graph_inv_insert_batch Let_def)

end
