(* ===== verification/System.thy ===== *)
theory System
  imports Client Server
begin

text \<open>
  The composed system: the client's handlers (\<open>Client\<close>) run against the
  graph engine (\<open>Server.serve\<close>).  A state of the system is the pair of the
  client state and the engine's graph; the lemmas here compute what each
  handler does to both when the server is the engine.
\<close>

lemma fetchGraphInfo_serve:
  "fetchGraphInfo serve (c, g) = (c\<lparr>graphInfo := (JsVal (graph_order g), JsVal (graph_size g))\<rparr>, g)"
  by (simp add: fetchGraphInfo_def serve_get_info)

lemma decode_wire_view:
  "(case wire_of_cedge (cedge_of_wire (wire_of_gedge e)) of (a, b, w) \<Rightarrow> (a, b, weight_of_wire w)) = e"
proof -
  obtain a b w where e: "e = (a, b, w)" by (cases e) auto
  then show ?thesis by (cases w) simp_all
qed

lemma decode_wire_views:
  "map (\<lambda>(a, b, w). (a, b, weight_of_wire w)) (map wire_of_cedge (map (\<lambda>e. cedge_of_wire (wire_of_gedge e)) es)) = es"
  by (induction es) (simp_all add: decode_wire_view del: wire_of_cedge.simps cedge_of_wire.simps)

lemma handleAddVertex_serve:
  "handleAddVertex serve (c, g) =
     (c\<lparr>vertices := vertices c @ [newVertex c], newVertex := []\<rparr>, add_vertex (newVertex c) g)"
  by (simp add: handleAddVertex_def serve_AddVertex)

lemma handleAddEdge_serve:
  "handleAddEdge serve (c, g) =
     (let w = (if weighted c then JNumber (parse_float (weight c)) else JUndefined)
      in case add_edge (startVertex c) (endVertex c) (weight_of_wire (json_prop w)) g of
           Inl e \<Rightarrow> (c, g)
         | Inr g' \<Rightarrow> (c\<lparr>edges := edges c @ [Edge3 (startVertex c) (endVertex c) w],
                         startVertex := [], endVertex := [], weight := []\<rparr>, g'))"
  by (simp add: handleAddEdge_def serve_AddEdge Let_def split: sum.splits)

lemma weight_of_json_prop_number:
  "weight_of_wire (json_prop (JNumber n)) = (case n of Fin r \<Rightarrow> Some r | _ \<Rightarrow> None)"
  by (cases n) simp_all

lemma serve_get_degree:
  assumes "url_safe v"
  shows "serve_get g (degree_url v) = result_reply (degree v g) RDegree"
proof -
  have u: "degree_url v = (api @ ''/degree'') @ CHR ''?'' # (''vertex'' @ CHR ''='' # v)"
    by (simp add: degree_url_def)
  have "url_parts (degree_url v) = (api @ ''/degree'', ''vertex'' @ CHR ''='' # v)
        \<and> query_args (''vertex'' @ CHR ''='' # v) = [(''vertex'', v)]"
    unfolding u using assms by (intro url_one_arg) (auto simp: query_key_ok_def)
  then show ?thesis by (simp add: serve_get_def query_arg_def api_def)
qed

lemma serve_get_verify_adj:
  assumes "url_safe a" and "url_safe b"
  shows "serve_get g (verify_adj_url a b) = result_reply (are_adjacent a b g) RResult"
proof -
  have u: "verify_adj_url a b = (api @ ''/verify_adj'') @ CHR ''?'' # (''vertex1'' @ CHR ''='' # a @ CHR ''&'' # ''vertex2'' @ CHR ''='' # b)"
    by (simp add: verify_adj_url_def)
  have "url_parts (verify_adj_url a b) = (api @ ''/verify_adj'', ''vertex1'' @ CHR ''='' # a @ CHR ''&'' # ''vertex2'' @ CHR ''='' # b)
        \<and> query_args (''vertex1'' @ CHR ''='' # a @ CHR ''&'' # ''vertex2'' @ CHR ''='' # b) = [(''vertex1'', a), (''vertex2'', b)]"
    unfolding u using assms by (intro url_two_args) (auto simp: query_key_ok_def)
  then show ?thesis by (simp add: serve_get_def query_arg_def api_def)
qed

lemma serve_get_adjacency:
  assumes "url_safe v"
  shows "serve_get g (adjacency_url v) = result_reply (neighbors v g) RNeighbors"
proof -
  have u: "adjacency_url v = (api @ ''/adjacency'') @ CHR ''?'' # (''vertex'' @ CHR ''='' # v)"
    by (simp add: adjacency_url_def)
  have "url_parts (adjacency_url v) = (api @ ''/adjacency'', ''vertex'' @ CHR ''='' # v)
        \<and> query_args (''vertex'' @ CHR ''='' # v) = [(''vertex'', v)]"
    unfolding u using assms by (intro url_one_arg) (auto simp: query_key_ok_def)
  then show ?thesis by (simp add: serve_get_def query_arg_def api_def)
qed

lemma serve_get_shortest_path:
  assumes "url_safe s" and "url_safe t"
  shows "serve_get g (shortest_path_url s t) =
           (case shortest_path g s t of None \<Rightarrow> Fail NoPath | Some r \<Rightarrow> result_reply r (\<lambda>(p, l). RPath p l))"
proof -
  have u: "shortest_path_url s t = (api @ ''/shortest_path'') @ CHR ''?'' #
             (''vertex_start'' @ CHR ''='' # s @ CHR ''&'' # ''vertex_end'' @ CHR ''='' # t)"
    by (simp add: shortest_path_url_def)
  have "url_parts (shortest_path_url s t) = (api @ ''/shortest_path'',
             ''vertex_start'' @ CHR ''='' # s @ CHR ''&'' # ''vertex_end'' @ CHR ''='' # t)
        \<and> query_args (''vertex_start'' @ CHR ''='' # s @ CHR ''&'' # ''vertex_end'' @ CHR ''='' # t)
             = [(''vertex_start'', s), (''vertex_end'', t)]"
    unfolding u using assms by (intro url_two_args) (auto simp: query_key_ok_def)
  then show ?thesis by (simp add: serve_get_def query_arg_def api_def)
qed

lemma handleCheckDegree_serve:
  assumes "url_safe (degreeVertex c)"
  shows "handleCheckDegree serve (c, g) =
           (case degree (degreeVertex c) g of
              Inl e \<Rightarrow> (c\<lparr>error := JsVal (''Erro ao verificar grau: Request failed with status code ''
                                         @ status_code (Fail e))\<rparr>, g)
            | Inr d \<Rightarrow> (c\<lparr>degreeMessage := DMVal d, error := JsVal []\<rparr>, g))"
  using assms by (simp add: handleCheckDegree_def serve_get_degree result_reply_def split: sum.splits)

lemma handleVerifyAdjacency_serve:
  assumes "url_safe (vertex1 c)" and "url_safe (vertex2 c)"
  shows "handleVerifyAdjacency serve (c, g) =
           (case are_adjacent (vertex1 c) (vertex2 c) g of
              Inl e \<Rightarrow> (c, g) | Inr b \<Rightarrow> (c\<lparr>adjResult := JsVal b\<rparr>, g))"
  using assms by (simp add: handleVerifyAdjacency_def serve_get_verify_adj result_reply_def split: sum.splits)

lemma handleGraphCreation_serve:
  "handleGraphCreation serve (c, g) =
     (c\<lparr>vertices := [], edges := [], graphInfo := (JsVal 0, JsVal 0)\<rparr>, reset (directed c) (weighted c))"
  by (simp add: handleGraphCreation_def serve_CreateGraph fetchGraphInfo_serve)
     (simp add: reset_def graph_order_def graph_size_def)

lemma handleFindShortestPath_serve:
  assumes "url_safe (pathStart c)" and "url_safe (pathEnd c)"
  shows "handleFindShortestPath serve (c, g) =
           (case shortest_path g (pathStart c) (pathEnd c) of
              Some (Inr (p, l)) \<Rightarrow> (c\<lparr>shortestPath := PathList p, shortestPathLength := JsVal l\<rparr>, g)
            | _ \<Rightarrow> (c, g))"
  using assms
  by (simp add: handleFindShortestPath_def serve_get_shortest_path result_reply_def
           split: option.splits sum.splits prod.splits)

lemma handleBatchInsert_serve:
  "handleBatchInsert serve (c, g) =
     (let g' = fst (insert_batch (fst (batch_items (batchData c)))
                 (map (\<lambda>(a, b, w). (a, b, weight_of_wire w)) (map wire_of_cedge (snd (batch_items (batchData c))))) g)
      in (c\<lparr>vertices := gverts g', edges := map (\<lambda>e. cedge_of_wire (wire_of_gedge e)) (gedges g'),
             graphInfo := (JsVal (graph_order g'), JsVal (graph_size g'))\<rparr>, g'))"
  by (simp add: handleBatchInsert_def serve_InsertBatch fetchGraphInfo_serve Let_def split: prod.splits)

lemma serve_get_eulerian: "serve_get g (api @ ''/check_eulerian'') = Ok (REuler (eulerian g))"
  by (simp add: serve_get_def url_parts_def browser_url_def c0_or_space_def api_def)

lemma handleCheckEulerian_serve:
  "handleCheckEulerian serve (c, g) = (c\<lparr>eulerianResult := JsVal (eulerian g)\<rparr>, g)"
  by (simp add: handleCheckEulerian_def serve_get_eulerian)

end
