(* ===== verification/UI.thy ===== *)
theory UI
  imports Client
begin

text \<open>
  The event wiring of the rendered forms (\<open>src/src/App.js\<close> lines
  305--762): every \<open>onChange\<close> setter and every \<open>onClick\<close> or
  \<open>onSubmit\<close> handler, grouped by the section of the page that renders
  them.  A widget that the page does not render cannot fire: the batch box only
  in \<open>"batch"\<close> insert mode, the single-insert fields only in
  \<open>"single"\<close> mode, the weight field only when the weighted radio is
  \<open>"yes"\<close>; such an event leaves the state unchanged.
\<close>

datatype create_event = SelectDirected string | SelectWeighted string | SubmitCreate
  | PickFile "string option" | ClickUpload

datatype insert_event = SelectInsertMode string | TypeBatch string | ClickBatchInsert
  | TypeNewVertex string | ClickAddVertex | TypeStart string | TypeEnd string
  | TypeWeight string | ClickAddEdge

datatype query_event = TypeVertex1 string | TypeVertex2 string | ClickVerifyAdjacency
  | TypeAdjVertex string | ClickCheckAdjacency | TypeDegreeVertex string | ClickCheckDegree
  | TypePathStart string | TypePathEnd string | ClickFindPath | ClickCheckEulerian
  | ClickGraphInfo

datatype ui_event = CreateEv create_event | InsertEv insert_event | QueryEv query_event

text \<open>Lines 312--401: the creation form and the file upload.\<close>

fun create_step :: "'s server \<Rightarrow> create_event \<Rightarrow> client_state \<times> 's \<Rightarrow> client_state \<times> 's" where
  "create_step srv (SelectDirected v) (c, s) = (c\<lparr>directed := (v = ''yes'')\<rparr>, s)"
| "create_step srv (SelectWeighted v) (c, s) = (c\<lparr>weighted := (v = ''yes'')\<rparr>, s)"
| "create_step srv SubmitCreate cs = handleGraphCreation srv cs"
| "create_step srv (PickFile f) (c, s) = (handleFileChange f c, s)"
| "create_step srv ClickUpload cs = handleFileUpload srv cs"

text \<open>Lines 402--545: the insert-mode choice, the batch box and the single inserts.\<close>

fun insert_step :: "'s server \<Rightarrow> insert_event \<Rightarrow> client_state \<times> 's \<Rightarrow> client_state \<times> 's" where
  "insert_step srv (SelectInsertMode m) (c, s) = (c\<lparr>insertMode := m\<rparr>, s)"
| "insert_step srv (TypeBatch t) (c, s) =
     (if insertMode c = ''batch'' then (c\<lparr>batchData := t\<rparr>, s) else (c, s))"
| "insert_step srv ClickBatchInsert (c, s) =
     (if insertMode c = ''batch'' then handleBatchInsert srv (c, s) else (c, s))"
| "insert_step srv (TypeNewVertex t) (c, s) =
     (if insertMode c = ''single'' then (c\<lparr>newVertex := t\<rparr>, s) else (c, s))"
| "insert_step srv ClickAddVertex (c, s) =
     (if insertMode c = ''single'' then handleAddVertex srv (c, s) else (c, s))"
| "insert_step srv (TypeStart t) (c, s) =
     (if insertMode c = ''single'' then (c\<lparr>startVertex := t\<rparr>, s) else (c, s))"
| "insert_step srv (TypeEnd t) (c, s) =
     (if insertMode c = ''single'' then (c\<lparr>endVertex := t\<rparr>, s) else (c, s))"
| "insert_step srv (TypeWeight t) (c, s) =
     (if insertMode c = ''single'' \<and> weighted c then (c\<lparr>weight := t\<rparr>, s) else (c, s))"
| "insert_step srv ClickAddEdge (c, s) =
     (if insertMode c = ''single'' then handleAddEdge srv (c, s) else (c, s))"

text \<open>Lines 547--762: the query sections and the graph-information button.\<close>

fun query_step :: "'s server \<Rightarrow> query_event \<Rightarrow> client_state \<times> 's \<Rightarrow> client_state \<times> 's" where
  "query_step srv (TypeVertex1 t) (c, s) = (c\<lparr>vertex1 := t\<rparr>, s)"
| "query_step srv (TypeVertex2 t) (c, s) = (c\<lparr>vertex2 := t\<rparr>, s)"
| "query_step srv ClickVerifyAdjacency cs = handleVerifyAdjacency srv cs"
| "query_step srv (TypeAdjVertex t) (c, s) = (c\<lparr>adjVertex := t\<rparr>, s)"
| "query_step srv ClickCheckAdjacency cs = handleCheckAdjacency srv cs"
| "query_step srv (TypeDegreeVertex t) (c, s) = (c\<lparr>degreeVertex := t\<rparr>, s)"
| "query_step srv ClickCheckDegree cs = handleCheckDegree srv cs"
| "query_step srv (TypePathStart t) (c, s) = (c\<lparr>pathStart := t\<rparr>, s)"
| "query_step srv (TypePathEnd t) (c, s) = (c\<lparr>pathEnd := t\<rparr>, s)"
| "query_step srv ClickFindPath cs = handleFindShortestPath srv cs"
| "query_step srv ClickCheckEulerian cs = handleCheckEulerian srv cs"
| "query_step srv ClickGraphInfo cs = fetchGraphInfo srv cs"

fun ui_step :: "'s server \<Rightarrow> ui_event \<Rightarrow> client_state \<times> 's \<Rightarrow> client_state \<times> 's" where
  "ui_step srv (CreateEv e) cs = create_step srv e cs"
| "ui_step srv (InsertEv e) cs = insert_step srv e cs"
| "ui_step srv (QueryEv e) cs = query_step srv e cs"

text \<open>A session: the mount effect (lines 272--274) fetches the graph information, then the events run in order.\<close>

fun ui_run :: "'s server \<Rightarrow> ui_event list \<Rightarrow> client_state \<times> 's \<Rightarrow> client_state \<times> 's" where
  "ui_run srv [] cs = cs"
| "ui_run srv (e # es) cs = ui_run srv es (ui_step srv e cs)"

definition ui_session :: "'s server \<Rightarrow> ui_event list \<Rightarrow> 's \<Rightarrow> client_state \<times> 's" where
  "ui_session srv es s = ui_run srv es (fetchGraphInfo srv (init_client, s))"

section \<open>Facts over any server\<close>

text \<open>An invariant of the server's state that every request keeps is kept by every session.\<close>

lemma server_step_inv:
  assumes "\<And>s rq. P s \<Longrightarrow> P (fst (srv s rq))" and "P s" and "srv s rq = (s', r)"
  shows "P s'"
  using assms(1) [OF assms(2), of rq] assms(3) by simp

lemma fetchGraphInfo_server_inv:
  assumes "\<And>s rq. P s \<Longrightarrow> P (fst (srv s rq))" and "P s"
  shows "P (snd (fetchGraphInfo srv (c, s)))"
  using assms
  by (auto simp: fetchGraphInfo_def split: prod.splits reply.splits resp.splits intro: server_step_inv)

lemma handlers_server_inv:
  assumes inv: "\<And>s rq. P s \<Longrightarrow> P (fst (srv s rq))" and "P s"
  shows "P (snd (handleGraphCreation srv (c, s)))" "P (snd (handleFileUpload srv (c, s)))"
    "P (snd (handleBatchInsert srv (c, s)))" "P (snd (handleAddVertex srv (c, s)))"
    "P (snd (handleAddEdge srv (c, s)))" "P (snd (handleVerifyAdjacency srv (c, s)))"
    "P (snd (handleCheckAdjacency srv (c, s)))" "P (snd (handleCheckDegree srv (c, s)))"
    "P (snd (handleFindShortestPath srv (c, s)))" "P (snd (handleCheckEulerian srv (c, s)))"
proof -
  have F: "P s' \<Longrightarrow> P (snd (fetchGraphInfo srv (c', s')))" for c' s'
    using inv by (rule fetchGraphInfo_server_inv)
  have S: "srv s rq = (s', r) \<Longrightarrow> P s'" for rq s' r
    using inv assms(2) by (rule server_step_inv)
  show "P (snd (handleGraphCreation srv (c, s)))"
    by (auto simp: handleGraphCreation_def split: prod.splits reply.splits intro: F S)
  show "P (snd (handleFileUpload srv (c, s)))"
    using assms(2) by (auto simp: handleFileUpload_def Let_def split: prod.splits reply.splits option.splits intro: S)
  show "P (snd (handleBatchInsert srv (c, s)))"
    by (auto simp: handleBatchInsert_def split: prod.splits reply.splits intro: F S)
  show "P (snd (handleAddVertex srv (c, s)))"
    by (auto simp: handleAddVertex_def split: prod.splits reply.splits intro: S)
  show "P (snd (handleAddEdge srv (c, s)))"
    by (auto simp: handleAddEdge_def Let_def split: prod.splits reply.splits intro: S)
  show "P (snd (handleVerifyAdjacency srv (c, s)))"
    by (auto simp: handleVerifyAdjacency_def split: prod.splits reply.splits resp.splits intro: S)
  show "P (snd (handleCheckAdjacency srv (c, s)))"
    by (auto simp: handleCheckAdjacency_def split: prod.splits reply.splits resp.splits intro: S)
  show "P (snd (handleCheckDegree srv (c, s)))"
    by (auto simp: handleCheckDegree_def split: prod.splits reply.splits resp.splits intro: S)
  show "P (snd (handleFindShortestPath srv (c, s)))"
    by (auto simp: handleFindShortestPath_def split: prod.splits reply.splits resp.splits intro: S)
  show "P (snd (handleCheckEulerian srv (c, s)))"
    by (auto simp: handleCheckEulerian_def split: prod.splits reply.splits resp.splits intro: S)
qed

lemma ui_step_server_inv:
  assumes inv: "\<And>s rq. P s \<Longrightarrow> P (fst (srv s rq))" and "P s"
  shows "P (snd (ui_step srv e (c, s)))"
proof -
  note H = handlers_server_inv [where P = P and srv = srv, OF inv assms(2)]
  have F: "P (snd (fetchGraphInfo srv (c, s)))" using inv assms(2) by (rule fetchGraphInfo_server_inv)
  show ?thesis
  proof (cases e)
    case (CreateEv ce)
    then show ?thesis using assms(2) H by (cases ce) simp_all
  next
    case (InsertEv ie)
    then show ?thesis using assms(2) H by (cases ie) simp_all
  next
    case (QueryEv qe)
    then show ?thesis using assms(2) H F by (cases qe) simp_all
  qed
qed

lemma ui_run_server_inv:
  assumes inv: "\<And>s rq. P s \<Longrightarrow> P (fst (srv s rq))" and "P s"
  shows "P (snd (ui_run srv es (c, s)))"
  using assms(2)
proof (induction es arbitrary: c s)
  case Nil
  then show ?case by simp
next
  case (Cons e es)
  obtain c' s' where st: "ui_step srv e (c, s) = (c', s')" by (cases "ui_step srv e (c, s)")
  have "P (snd (ui_step srv e (c, s)))" using inv Cons.prems by (rule ui_step_server_inv)
  then have "P s'" by (simp add: st)
  then show ?case by (simp add: st Cons.IH)
qed

end
