(* ===== verification/Session.thy ===== *)
theory Session
  imports System UI
begin

text \<open>
  Whole sessions of the page against the engine.  The client's vertex and edge
  lists (\<open>vertices\<close>, \<open>edges\<close> in \<open>src/src/App.js\<close>) are a view of the
  engine's graph: \<open>view_sync\<close> says that the graph's vertex set is the set of
  listed vertices and edge endpoints, and that the edge list, read the way the
  engine reads a request (\<open>gedge_of_cedge\<close>), is the graph's edge list.  Each
  handler keeps this relation (the \<open>_sync\<close> lemmas), so every run of UI
  events does (\<open>ui_run_sync\<close>).
\<close>

definition gedge_of_cedge :: "cedge \<Rightarrow> gedge" where
  "gedge_of_cedge e = (case wire_of_cedge e of (a, b, w) \<Rightarrow> (a, b, weight_of_wire w))"

definition view_sync :: "client_state \<Rightarrow> graph \<Rightarrow> bool" where
  "view_sync c g \<longleftrightarrow> graph_inv g
     \<and> set (gverts g) = set (vertices c) \<union> endpoints (edges c)
     \<and> map gedge_of_cedge (edges c) = gedges g"

section \<open>Every handler keeps the view in step\<close>

lemma gedge_of_cedge_wire [simp]: "gedge_of_cedge (cedge_of_wire (wire_of_gedge e)) = e"
  using decode_wire_view [of e] by (simp add: gedge_of_cedge_def)

lemma endpoints_gedges:
  "graph_inv g \<Longrightarrow> endpoints (map (\<lambda>e. cedge_of_wire (wire_of_gedge e)) (gedges g)) \<subseteq> set (gverts g)"
proof
  fix x assume inv: "graph_inv g" and x: "x \<in> endpoints (map (\<lambda>e. cedge_of_wire (wire_of_gedge e)) (gedges g))"
  then obtain e where e: "e \<in> set (gedges g)" and xe: "x \<in> {edge_v1 (cedge_of_wire (wire_of_gedge e)), edge_v2 (cedge_of_wire (wire_of_gedge e))}"
    by (auto simp: endpoints_def)
  obtain a b w where abw: "e = (a, b, w)" by (cases e) auto
  have "edge_v1 (cedge_of_wire (wire_of_gedge e)) = a \<and> edge_v2 (cedge_of_wire (wire_of_gedge e)) = b"
    unfolding abw by (cases w) simp_all
  with xe have "x = a \<or> x = b" by auto
  with inv e abw show "x \<in> set (gverts g)" by (auto simp: graph_inv_def)
qed

lemma view_sync_items:
  "graph_inv g \<Longrightarrow> view_sync (c\<lparr>vertices := gverts g, edges := map (\<lambda>e. cedge_of_wire (wire_of_gedge e)) (gedges g)\<rparr>) g"
  using endpoints_gedges [of g] by (auto simp: view_sync_def comp_def)


lemma view_sync_fields:
  "vertices c' = vertices c \<Longrightarrow> edges c' = edges c \<Longrightarrow> view_sync c' g = view_sync c g"
  by (simp add: view_sync_def)

lemma fetchGraphInfo_sync: "view_sync c g \<Longrightarrow> view_sync (fst (fetchGraphInfo serve (c, g))) (snd (fetchGraphInfo serve (c, g)))"
  by (simp add: fetchGraphInfo_serve view_sync_def)

lemma handleBatchInsert_sync:
  assumes "graph_inv g"
  shows "view_sync (fst (handleBatchInsert serve (c, g))) (snd (handleBatchInsert serve (c, g)))"
proof -
  obtain vs es where b: "batch_items (batchData c) = (vs, es)" by (cases "batch_items (batchData c)") auto
  define g' where "g' = fst (insert_batch vs (map (\<lambda>(a, b, w). (a, b, weight_of_wire w)) (map wire_of_cedge es)) g)"
  have inv: "graph_inv g'" using assms by (simp add: g'_def graph_inv_insert_batch)
  have "handleBatchInsert serve (c, g) =
          fetchGraphInfo serve (c\<lparr>vertices := gverts g', edges := map cedge_of_wire (map wire_of_gedge (gedges g'))\<rparr>, g')"
    by (simp add: handleBatchInsert_def serve_InsertBatch b g'_def Let_def)
  then show ?thesis using view_sync_items [OF inv] by (simp add: fetchGraphInfo_serve view_sync_def comp_def)
qed

lemma handleGraphCreation_sync:
  "view_sync (fst (handleGraphCreation serve (c, g))) (snd (handleGraphCreation serve (c, g)))"
  by (simp add: handleGraphCreation_def serve_CreateGraph fetchGraphInfo_serve view_sync_def graph_inv_reset)
     (simp add: reset_def)

lemma handleFileUpload_sync:
  assumes "view_sync c g"
  shows "view_sync (fst (handleFileUpload serve (c, g))) (snd (handleFileUpload serve (c, g)))"
proof (cases "selectedFile c")
  case None
  then show ?thesis using assms by (simp add: handleFileUpload_def)
next
  case (Some t)
  obtain nv ne where f: "file_items (vertices c) (edges c) t = (nv, ne)" by (cases "file_items (vertices c) (edges c) t") auto
  define g' where "g' = fst (insert_batch nv (map (\<lambda>(a, b, w). (a, b, weight_of_wire w)) (map wire_of_cedge ne)) g)"
  have inv: "graph_inv g'" using assms by (simp add: g'_def view_sync_def graph_inv_insert_batch)
  have "handleFileUpload serve (c, g) =
          (c\<lparr>vertices := gverts g', edges := map cedge_of_wire (map wire_of_gedge (gedges g'))\<rparr>, g')"
    by (simp add: handleFileUpload_def Some serve_InsertBatch f g'_def Let_def)
  then show ?thesis using view_sync_items [OF inv] by (simp add: view_sync_def comp_def)
qed

lemma handleAddVertex_sync:
  assumes "view_sync c g"
  shows "view_sync (fst (handleAddVertex serve (c, g))) (snd (handleAddVertex serve (c, g)))"
proof -
  have "graph_inv (add_vertex (newVertex c) g)"
    using assms by (simp add: view_sync_def graph_inv_add_vertex)
  then show ?thesis using assms by (auto simp: handleAddVertex_serve view_sync_def add_vertex_def)
qed

lemma handleAddEdge_sync:
  assumes "view_sync c g"
  shows "view_sync (fst (handleAddEdge serve (c, g))) (snd (handleAddEdge serve (c, g)))"
proof -
  define w where "w = (if weighted c then JNumber (parse_float (weight c)) else JUndefined)"
  have wslot: "weight_of_wire (json_slot w) = weight_of_wire (json_prop w)"
    by (cases w) simp_all
  show ?thesis
  proof (cases "add_edge (startVertex c) (endVertex c) (weight_of_wire (json_prop w)) g")
    case (Inl e)
    then show ?thesis using assms by (simp add: handleAddEdge_serve w_def[symmetric])
  next
    case (Inr g')
    have "graph_inv g" using assms by (simp add: view_sync_def)
    then have "graph_inv g'" using Inr by (rule graph_inv_add_edge)
    have h: "handleAddEdge serve (c, g) =
               (c\<lparr>edges := edges c @ [Edge3 (startVertex c) (endVertex c) w],
                  startVertex := [], endVertex := [], weight := []\<rparr>, g')"
      using Inr by (simp add: handleAddEdge_serve w_def[symmetric])
    have g': "g' = g\<lparr>gverts := list_insert (endVertex c) (list_insert (startVertex c) (gverts g)),
                 gedges := gedges g @ [(startVertex c, endVertex c, weight_of_wire (json_prop w))]\<rparr>"
      using Inr by (simp add: add_edge_Inr)
    show ?thesis using assms \<open>graph_inv g'\<close> wslot unfolding h
      by (auto simp: view_sync_def g' gedge_of_cedge_def)
  qed
qed


lemma query_handlers_sync:
  assumes "view_sync c g"
  shows "view_sync (fst (handleVerifyAdjacency serve (c, g))) (snd (handleVerifyAdjacency serve (c, g)))"
    and "view_sync (fst (handleCheckAdjacency serve (c, g))) (snd (handleCheckAdjacency serve (c, g)))"
    and "view_sync (fst (handleCheckDegree serve (c, g))) (snd (handleCheckDegree serve (c, g)))"
    and "view_sync (fst (handleFindShortestPath serve (c, g))) (snd (handleFindShortestPath serve (c, g)))"
    and "view_sync (fst (handleCheckEulerian serve (c, g))) (snd (handleCheckEulerian serve (c, g)))"
  using assms
  by (simp_all add: handleVerifyAdjacency_def handleCheckAdjacency_def handleCheckDegree_def
        handleFindShortestPath_def handleCheckEulerian_def view_sync_def split: reply.splits resp.splits)

lemma ui_step_sync:
  assumes "view_sync c g"
  shows "view_sync (fst (ui_step serve e (c, g))) (snd (ui_step serve e (c, g)))"
proof (cases e)
  case (CreateEv ce)
  then show ?thesis using assms
    by (cases ce; simp add: handleGraphCreation_sync handleFileUpload_sync; simp add: handleFileChange_def view_sync_def)
next
  case (InsertEv ie)
  have "graph_inv g" using assms by (simp add: view_sync_def)
  with InsertEv show ?thesis using assms
    by (cases ie; simp add: handleBatchInsert_sync handleAddVertex_sync handleAddEdge_sync; simp add: view_sync_def)
next
  case (QueryEv qe)
  then show ?thesis using assms
    by (cases qe; simp add: query_handlers_sync fetchGraphInfo_sync; simp add: view_sync_def)
qed

lemma ui_run_sync:
  "view_sync c g \<Longrightarrow> view_sync (fst (ui_run serve es (c, g))) (snd (ui_run serve es (c, g)))"
proof (induction es arbitrary: c g)
  case Nil
  then show ?case by simp
next
  case (Cons e es)
  obtain c' g' where s: "ui_step serve e (c, g) = (c', g')" by (cases "ui_step serve e (c, g)") auto
  from ui_step_sync [OF Cons.prems, of e] have "view_sync c' g'" by (simp add: s)
  then show ?case by (simp add: s Cons.IH)
qed


section \<open>Sessions\<close>

lemma view_sync_init: "view_sync init_client (reset d w)"
  by (simp add: view_sync_def init_client_def graph_inv_reset) (simp add: reset_def)

lemma ui_session_sync:
  "view_sync (fst (ui_session serve es (reset d w))) (snd (ui_session serve es (reset d w)))"
proof -
  have "view_sync (fst (fetchGraphInfo serve (init_client, reset d w))) (snd (fetchGraphInfo serve (init_client, reset d w)))"
    using view_sync_init by (rule fetchGraphInfo_sync)
  then show ?thesis unfolding ui_session_def
    by (metis prod.collapse ui_run_sync)
qed

lemma view_sync_counts:
  assumes "view_sync c g"
  shows "graph_order g = card (set (vertices c) \<union> endpoints (edges c)) \<and> graph_size g = length (edges c)"
proof -
  have "distinct (gverts g)" using assms by (simp add: view_sync_def graph_inv_def)
  then have "graph_order g = card (set (gverts g))" by (simp add: graph_order_def distinct_card)
  moreover have "graph_size g = length (map gedge_of_cedge (edges c))"
    using assms by (simp add: view_sync_def graph_size_def)
  ultimately show ?thesis using assms by (simp add: view_sync_def)
qed

lemma ui_session_create:
  "ui_session serve (CreateEv (SelectDirected d) # CreateEv (SelectWeighted w) # CreateEv SubmitCreate # es) g0 =
     ui_run serve es (init_client\<lparr>directed := (d = ''yes''), weighted := (w = ''yes''), graphInfo := (JsVal 0, JsVal 0)\<rparr>,
                      reset (d = ''yes'') (w = ''yes''))"
  by (simp add: ui_session_def fetchGraphInfo_serve handleGraphCreation_serve) (simp add: init_client_def)

end
