(* ===== verification/View.thy ===== *)
theory View
  imports Client
begin

text \<open>
  What \<open>App\<close> renders (\<open>src/src/App.js\<close> lines 276--284 and 305--811),
  as values: the text segments each section shows and the node and edge
  arrays handed to vis-network.  React renders a string as itself, a number
  by \<open>String(n)\<close>, an array by rendering its elements one after the other,
  and \<open>null\<close>, \<open>undefined\<close> and booleans as nothing; a template literal
  converts every value with \<open>ToString\<close> (\<open>undefined\<close> becomes the text
  \<open>"undefined"\<close>).
\<close>

text \<open>
  A segment is a literal text, a number's text, or a text the engine chose
  (the degree message and the Eulerian result), kept as the value it reports.
\<close>

datatype seg = Str string | Num jsnum | DegreeText degree_info | EulerText euler_result

text \<open>\<open>Array.prototype.indexOf\<close>: the first index, or \<open>-1\<close>.\<close>

fun js_index_of :: "'a list \<Rightarrow> 'a \<Rightarrow> int" where
  "js_index_of [] x = -1"
| "js_index_of (y # ys) x = (if y = x then 0 else (let i = js_index_of ys x in if i < 0 then -1 else i + 1))"

section \<open>The vis-network data (lines 276--284)\<close>

record vis_edge =
  from_id :: int
  to_id :: int
  arrows :: string
  elabel :: "jsnum option"

fun slot_value :: "cedge \<Rightarrow> jsval" where
  "slot_value (Edge2 a b) = JUndefined"
| "slot_value (Edge3 a b w) = w"

text \<open>\<open>edge[2] ? edge[2].toString() : undefined\<close>: only a truthy number labels the edge.\<close>

definition vis_edge_of :: "label list \<Rightarrow> bool \<Rightarrow> cedge \<Rightarrow> vis_edge" where
  "vis_edge_of vs dir e =
     \<lparr>from_id = js_index_of vs (edge_v1 e), to_id = js_index_of vs (edge_v2 e),
      arrows = (if dir then ''to'' else []),
      elabel = (case slot_value e of JNumber n \<Rightarrow> if num_truthy n then Some n else None | _ \<Rightarrow> None)\<rparr>"

definition vis_graph :: "client_state \<Rightarrow> (nat \<times> label) list \<times> vis_edge list" where
  "vis_graph c =
     (zip [0..<length (vertices c)] (vertices c),
      map (vis_edge_of (vertices c) (directed c)) (edges c))"

section \<open>Displayed texts\<close>

text \<open>Lines 788--796: \<open>`${edge[0]} - ${edge[1]} ${edge[2] && `(weight: ${edge[2]})`}`\<close>.\<close>

definition edge_item_text :: "cedge \<Rightarrow> seg list" where
  "edge_item_text e =
     [Str (edge_v1 e), Str '' - '', Str (edge_v2 e), Str '' ''] @
     (case slot_value e of
        JUndefined \<Rightarrow> [Str ''undefined'']
      | JNull \<Rightarrow> [Str ''null'']
      | JNumber n \<Rightarrow> (if num_truthy n then [Str ''(weight: '', Num n, Str '')''] else [Num n]))"

definition vertex_list_view :: "client_state \<Rightarrow> seg list list" where
  "vertex_list_view c = map (\<lambda>v. [Str v]) (vertices c)"

definition edge_list_view :: "client_state \<Rightarrow> seg list list" where
  "edge_list_view c = map edge_item_text (edges c)"

text \<open>Lines 703--716: \<open>{shortestPath && ...}\<close> and \<open>{shortestPathLength !== null && ...}\<close>.\<close>

definition path_view :: "client_state \<Rightarrow> seg list list" where
  "path_view c =
     (case shortestPath c of
        PathStr s \<Rightarrow> (if s = [] then [] else [[Str ''Caminho mais curto:''], [Str s]])
      | PathUndef \<Rightarrow> []
      | PathList p \<Rightarrow> [[Str ''Caminho mais curto:''], map Str p]) @
     (case shortestPathLength c of
        JsNull \<Rightarrow> []
      | JsUndef \<Rightarrow> [[Str ''Comprimento do caminho mais curto:''], []]
      | JsVal l \<Rightarrow> [[Str ''Comprimento do caminho mais curto:''], [Num (Fin l)]])"

text \<open>Lines 582--586: \<open>{adjResult !== null && <Typography>{adjResult}</Typography>}\<close>.\<close>

definition adj_result_view :: "client_state \<Rightarrow> seg list list" where
  "adj_result_view c =
     (case adjResult c of JsNull \<Rightarrow> [] | JsUndef \<Rightarrow> [[]] | JsVal b \<Rightarrow> [[]])"

text \<open>Lines 615--621: the neighbour list.\<close>

definition neighbor_list_view :: "client_state \<Rightarrow> seg list list" where
  "neighbor_list_view c = map (\<lambda>v. [Str v]) (adjVertices c)"

text \<open>Lines 650--663: \<open>{degreeMessage && ...}\<close> and \<open>{error && ...}\<close>.\<close>

definition degree_view :: "client_state \<Rightarrow> seg list list" where
  "degree_view c =
     (case degreeMessage c of DMEmptyArray \<Rightarrow> [[]] | DMUndef \<Rightarrow> [] | DMVal d \<Rightarrow> [[DegreeText d]]) @
     (case error c of JsVal s \<Rightarrow> (if s = [] then [] else [[Str s]]) | _ \<Rightarrow> [])"

text \<open>Lines 736--740: \<open>{eulerianResult !== null && ...}\<close>.\<close>

definition euler_view :: "client_state \<Rightarrow> seg list list" where
  "euler_view c = (case eulerianResult c of JsNull \<Rightarrow> [] | JsUndef \<Rightarrow> [[]] | JsVal r \<Rightarrow> [[EulerText r]])"

text \<open>Lines 752--761: \<open>graphInfo\<close> is never \<open>null\<close>, so both lines always show.\<close>

definition info_view :: "client_state \<Rightarrow> seg list list" where
  "info_view c =
     (let shown = (\<lambda>x. case x of JsVal n \<Rightarrow> [Num (Fin (of_nat n))] | _ \<Rightarrow> [])
      in [Str ''Ordem do Grafo: '' # shown (fst (graphInfo c)),
          Str ''Tamanho do Grafo: '' # shown (snd (graphInfo c))])"

text \<open>Flattening a rendered line to the characters on screen, given how numbers print.\<close>

definition screen_text :: "(jsnum \<Rightarrow> string) \<Rightarrow> seg list \<Rightarrow> string" where
  "screen_text num_str ss =
     concat (map (\<lambda>s. case s of Str t \<Rightarrow> t | Num n \<Rightarrow> num_str n | _ \<Rightarrow> []) ss)"

section \<open>Properties of the view\<close>

lemma js_index_of_notin: "x \<notin> set xs \<Longrightarrow> js_index_of xs x = -1"
  by (induction xs) auto

lemma js_index_of_bounds: "-1 \<le> js_index_of xs x \<and> js_index_of xs x < int (length xs)"
  by (induction xs) (auto simp: Let_def)

lemma js_index_of_in: "x \<in> set xs \<Longrightarrow> 0 \<le> js_index_of xs x \<and> xs ! nat (js_index_of xs x) = x"
proof (induction xs)
  case Nil
  then show ?case by simp
next
  case (Cons y ys)
  show ?case
  proof (cases "y = x")
    case True
    then show ?thesis by simp
  next
    case False
    with Cons have ih: "0 \<le> js_index_of ys x" "ys ! nat (js_index_of ys x) = x" by auto
    then have "nat (js_index_of ys x + 1) = Suc (nat (js_index_of ys x))" by simp
    with False ih show ?thesis by (simp add: Let_def)
  qed
qed

lemma js_index_of_neg: "js_index_of xs x = -1 \<longleftrightarrow> x \<notin> set xs"
  using js_index_of_in [of x xs] js_index_of_notin [of x xs] by auto

lemma vis_graph_nodes: "j < length (vertices c) \<Longrightarrow> fst (vis_graph c) ! j = (j, vertices c ! j)"
  by (simp add: vis_graph_def)

end
