(* ===== verification/Display.thy ===== *)
theory Display
  imports View System
begin

text \<open>
  What the page shows when its views are fed by the engine: facts that need
  both the rendering of \<open>View\<close> and the engine's replies of \<open>System\<close>.
\<close>

lemma edge_item_text_unweighted:
  "screen_text ns (edge_item_text (cedge_of_wire (wire_of_gedge (a, b, None)))) = a @ '' - '' @ b @ '' undefined''"
  by (simp add: edge_item_text_def screen_text_def)

end
