(* ===== verification/Network.thy ===== *)
theory Network
  imports UI View
begin

text \<open>
  The drawing of the graph (\<open>src/src/App.js\<close> lines 276--303).  Every
  render of \<open>App\<close> builds the object \<open>graph\<close> anew, with fresh
  \<open>nodes\<close> and \<open>edges\<close> arrays (\<open>.map\<close> allocates), and the effect of
  lines 286--303 lists these two arrays as its dependencies.  React runs an
  effect again when a dependency differs from the previous render's by
  \<open>Object.is\<close>, i.e. is another object; the model names objects by
  allocation numbers (\<open>js_ref\<close>), so each render allocates two new ones.
  The effect then builds a new vis-network \<open>Network\<close> from the arrays.
  A page is the client state, the server state and the network state; the
  mount (lines 272--274 and 286--303) renders once, fetches the graph
  information and renders again, and every UI event (every one calls a state
  setter) renders once more; a handler that sets state several times after
  an \<open>await\<close> may render more often, which only rebuilds the network again.  \<open>page_reach\<close> is the set of pages a session
  reaches, and \<open>net_inv\<close> its invariant, proved by rule induction.
\<close>

datatype js_ref = JsRef nat

record net_state =
  net_deps :: "js_ref list option"
  heap_next :: nat
  drawn :: "((nat \<times> label) list \<times> vis_edge list) option"
  builds :: nat

definition net_init :: net_state where
  "net_init = \<lparr>net_deps = None, heap_next = 0, drawn = None, builds = 0\<rparr>"

text \<open>React's comparison of effect dependencies: position by position, by identity.\<close>

fun deps_equal :: "js_ref list \<Rightarrow> js_ref list \<Rightarrow> bool" where
  "deps_equal (a # as) (b # bs) = (a = b \<and> deps_equal as bs)"
| "deps_equal _ _ = True"

definition deps_changed :: "js_ref list option \<Rightarrow> js_ref list \<Rightarrow> bool" where
  "deps_changed old new = (case old of None \<Rightarrow> True | Some ds \<Rightarrow> \<not> deps_equal ds new)"

text \<open>One render: allocate \<open>graph.nodes\<close> and \<open>graph.edges\<close>, then run the
  effect if its dependencies changed (\<open>networkRef.current\<close> is set, as the
  \<open>div\<close> of line 807 is always rendered).\<close>

definition network_effect :: "client_state \<Rightarrow> net_state \<Rightarrow> net_state" where
  "network_effect c ns =
     (let refs = [JsRef (heap_next ns), JsRef (Suc (heap_next ns))];
          ns' = ns\<lparr>heap_next := heap_next ns + 2\<rparr>
      in if deps_changed (net_deps ns) refs
         then ns'\<lparr>net_deps := Some refs, drawn := Some (vis_graph c), builds := Suc (builds ns)\<rparr>
         else ns')"

type_synonym 's page = "(client_state \<times> 's) \<times> net_state"

definition mount_page :: "'s server \<Rightarrow> 's \<Rightarrow> 's page" where
  "mount_page srv s =
     (let ns = network_effect init_client net_init;
          (c, s') = fetchGraphInfo srv (init_client, s)
      in ((c, s'), network_effect c ns))"

definition page_step :: "'s server \<Rightarrow> ui_event \<Rightarrow> 's page \<Rightarrow> 's page" where
  "page_step srv e p =
     (let (c, s) = ui_step srv e (fst p) in ((c, s), network_effect c (snd p)))"

inductive page_reach :: "'s server \<Rightarrow> 's \<Rightarrow> 's page \<Rightarrow> bool" for srv s0 where
  mount: "page_reach srv s0 (mount_page srv s0)"
| step: "page_reach srv s0 p \<Longrightarrow> page_reach srv s0 (page_step srv e p)"

definition net_inv :: "client_state \<Rightarrow> net_state \<Rightarrow> bool" where
  "net_inv c ns \<longleftrightarrow> drawn ns = Some (vis_graph c)
     \<and> (\<exists>n. net_deps ns = Some [JsRef n, JsRef (Suc n)] \<and> Suc n < heap_next ns)"

inductive_cases page_reach_cases: "page_reach srv s0 p"

section \<open>Every render rebuilds the network\<close>

lemma deps_fresh:
  assumes "net_deps ns = Some [JsRef n, JsRef (Suc n)]" and "Suc n < heap_next ns"
  shows "deps_changed (net_deps ns) [JsRef (heap_next ns), JsRef (Suc (heap_next ns))]"
  using assms by (simp add: deps_changed_def)

lemma network_effect_rebuilds:
  assumes "net_inv c0 ns"
  shows "network_effect c ns =
           ns\<lparr>heap_next := heap_next ns + 2, net_deps := Some [JsRef (heap_next ns), JsRef (Suc (heap_next ns))],
              drawn := Some (vis_graph c), builds := Suc (builds ns)\<rparr>"
proof -
  from assms obtain n where "net_deps ns = Some [JsRef n, JsRef (Suc n)]" "Suc n < heap_next ns"
    unfolding net_inv_def by blast
  from deps_fresh [OF this] show ?thesis by (simp add: network_effect_def Let_def)
qed

lemma network_effect_inv: "net_inv c0 ns \<Longrightarrow> net_inv c (network_effect c ns)"
  unfolding network_effect_rebuilds [of c0 ns c] by (auto simp: net_inv_def)

lemma mount_page_inv: "net_inv (fst (fst (mount_page srv s))) (snd (mount_page srv s))"
proof -
  have "net_inv init_client (network_effect init_client net_init)"
    by (simp add: net_inv_def network_effect_def net_init_def deps_changed_def)
  then show ?thesis
    by (auto simp: mount_page_def Let_def split: prod.splits intro: network_effect_inv)
qed

lemma page_reach_inv: "page_reach srv s0 p \<Longrightarrow> net_inv (fst (fst p)) (snd p)"
proof (induction rule: page_reach.induct)
  case mount
  then show ?case by (rule mount_page_inv)
next
  case (step p e)
  then show ?case by (auto simp: page_step_def split: prod.splits intro: network_effect_inv)
qed

end
