(* ===== verification/Async.thy ===== *)
theory Async
  imports UI
begin

text \<open>
  The insert handlers as the asynchronous functions they are
  (\<open>src/src/App.js\<close> lines 82--115 and 190--222).  The code of a handler
  up to its \<open>await axios.post\<close> runs in the click and sends the request;
  the rest of the handler, a continuation (\<open>cont\<close>), runs when the reply
  arrives, and replies of different requests may arrive in any order.  The
  engine handles requests one at a time (spec section 5) in the order they
  reach it, taken here as the order they were sent, so a request's reply is
  computed when it is sent and waits in \<open>inflight\<close> until it is delivered.
  A continuation captures the values its closure saw at the click (the
  typed label of \<open>handleAddVertex\<close>, the endpoints and weight of
  \<open>handleAddEdge\<close>); \<open>setVertices(prev => ...)\<close> and
  \<open>setEdges(prev => ...)\<close> read the state at delivery, while the batch
  insert replaces the lists by the reply's.  Delivering the batch reply runs
  \<open>fetchGraphInfo\<close>, whose own request goes out then.  When every reply is
  delivered as soon as it is sent, the split handlers end in the state of
  the synchronous handlers of \<open>UI\<close> (\<open>async_refines_sync\<close>).
\<close>

datatype cont = KBatch | KInfo | KAddVertex label | KAddEdge label label jsval

record 's apage =
  acl :: client_state
  aserver :: 's
  inflight :: "(reply \<times> cont) list"

definition info_req :: request where
  "info_req = Get (api @ ''/get_graph_info'')"

definition send :: "'s server \<Rightarrow> request \<Rightarrow> cont \<Rightarrow> 's apage \<Rightarrow> 's apage" where
  "send srv rq k p = (let (s', r) = srv (aserver p) rq in p\<lparr>aserver := s', inflight := inflight p @ [(r, k)]\<rparr>)"

text \<open>The code after the \<open>await\<close>: the new client state and the requests it sends.\<close>

fun resume :: "cont \<Rightarrow> reply \<Rightarrow> client_state \<Rightarrow> client_state \<times> (request \<times> cont) list" where
  "resume KBatch (Ok d) c = (c\<lparr>vertices := resp_vertices d, edges := resp_edges d\<rparr>, [(info_req, KInfo)])"
| "resume KInfo (Ok (RInfo ord sz)) c = (c\<lparr>graphInfo := (JsVal ord, JsVal sz)\<rparr>, [])"
| "resume KInfo (Ok _) c = (c\<lparr>graphInfo := (JsUndef, JsUndef)\<rparr>, [])"
| "resume (KAddVertex v) (Ok _) c = (c\<lparr>vertices := vertices c @ [v], newVertex := []\<rparr>, [])"
| "resume (KAddEdge a b w) (Ok _) c =
     (c\<lparr>edges := edges c @ [Edge3 a b w], startVertex := [], endVertex := [], weight := []\<rparr>, [])"
| "resume _ _ c = (c, [])"

definition click_batch :: "'s server \<Rightarrow> 's apage \<Rightarrow> 's apage" where
  "click_batch srv p =
     (let (vs, es) = batch_items (batchData (acl p))
      in send srv (InsertBatchReq vs (map wire_of_cedge es)) KBatch p)"

definition click_add_vertex :: "'s server \<Rightarrow> 's apage \<Rightarrow> 's apage" where
  "click_add_vertex srv p =
     send srv (AddVertexReq (newVertex (acl p))) (KAddVertex (newVertex (acl p))) p"

definition click_add_edge :: "'s server \<Rightarrow> 's apage \<Rightarrow> 's apage" where
  "click_add_edge srv p =
     (let c = acl p; w = (if weighted c then JNumber (parse_float (weight c)) else JUndefined)
      in send srv (AddEdgeReq (startVertex c) (endVertex c) (json_prop w)) (KAddEdge (startVertex c) (endVertex c) w) p)"

definition remove_nth :: "nat \<Rightarrow> 'a list \<Rightarrow> 'a list" where
  "remove_nth i xs = take i xs @ drop (Suc i) xs"

definition deliver :: "'s server \<Rightarrow> nat \<Rightarrow> 's apage \<Rightarrow> 's apage" where
  "deliver srv i p =
     (if i < length (inflight p) then
        (let (r, k) = inflight p ! i; (c', rqs) = resume k r (acl p)
         in fold (\<lambda>(rq, k') q. send srv rq k' q) rqs (p\<lparr>acl := c', inflight := remove_nth i (inflight p)\<rparr>))
      else p)"

datatype aevent = AInsert insert_event | Deliver nat

fun astep :: "'s server \<Rightarrow> aevent \<Rightarrow> 's apage \<Rightarrow> 's apage" where
  "astep srv (AInsert ClickBatchInsert) p =
     (if insertMode (acl p) = ''batch'' then click_batch srv p else p)"
| "astep srv (AInsert ClickAddVertex) p =
     (if insertMode (acl p) = ''single'' then click_add_vertex srv p else p)"
| "astep srv (AInsert ClickAddEdge) p =
     (if insertMode (acl p) = ''single'' then click_add_edge srv p else p)"
| "astep srv (AInsert e) p =
     (let (c, s) = insert_step srv e (acl p, aserver p) in p\<lparr>acl := c, aserver := s\<rparr>)"
| "astep srv (Deliver i) p = deliver srv i p"

fun arun :: "'s server \<Rightarrow> aevent list \<Rightarrow> 's apage \<Rightarrow> 's apage" where
  "arun srv [] p = p"
| "arun srv (e # es) p = arun srv es (astep srv e p)"

section \<open>Delivered at once, the split handlers are the synchronous ones\<close>

lemma deliver_info:
  "inflight p = [] \<Longrightarrow>
   deliver srv 0 (send srv info_req KInfo p) =
     (let (c', s') = fetchGraphInfo srv (acl p, aserver p) in p\<lparr>acl := c', aserver := s'\<rparr>)"
  by (auto simp: deliver_def send_def fetchGraphInfo_def info_req_def remove_nth_def Let_def
           split: prod.splits reply.splits resp.splits)


lemma deliver_beyond [simp]: "length (inflight p) \<le> i \<Longrightarrow> deliver srv i p = p"
  by (simp add: deliver_def)

lemma batch_delivered:
  assumes "inflight p = []"
  shows "arun srv [Deliver 0, Deliver 0] (click_batch srv p) = 
           (let (c', s') = handleBatchInsert srv (acl p, aserver p) in p\<lparr>acl := c', aserver := s', inflight := []\<rparr>)"
proof -
  obtain vs es where b: "batch_items (batchData (acl p)) = (vs, es)" by (cases "batch_items (batchData (acl p))")
  obtain s1 r where sr: "srv (aserver p) (InsertBatchReq vs (map wire_of_cedge es)) = (s1, r)"
    by (cases "srv (aserver p) (InsertBatchReq vs (map wire_of_cedge es))")
  have cb: "click_batch srv p = p\<lparr>aserver := s1, inflight := [(r, KBatch)]\<rparr>"
    using assms by (simp add: click_batch_def send_def b sr)
  show ?thesis
  proof (cases "\<exists>d. r = Ok d")
    case True
    then obtain d where d: "r = Ok d" by blast
    let ?p1 = "p\<lparr>aserver := s1, acl := (acl p)\<lparr>vertices := resp_vertices d, edges := resp_edges d\<rparr>, inflight := []\<rparr>"
    have "deliver srv 0 (click_batch srv p) = send srv info_req KInfo ?p1"
      by (simp add: cb d deliver_def remove_nth_def)
    moreover have "deliver srv 0 (send srv info_req KInfo ?p1) =
        (let (c', s') = fetchGraphInfo srv (acl ?p1, aserver ?p1) in ?p1\<lparr>acl := c', aserver := s'\<rparr>)"
      by (rule deliver_info) simp
    ultimately show ?thesis
      by (simp add: handleBatchInsert_def b sr d Let_def split: prod.splits)
  next
    case False
    then have "resume KBatch r (acl p) = (acl p, [])" by (cases r) auto
    then have "deliver srv 0 (click_batch srv p) = p\<lparr>aserver := s1, inflight := []\<rparr>"
      by (simp add: cb deliver_def remove_nth_def)
    moreover have "handleBatchInsert srv (acl p, aserver p) = (acl p, s1)"
      using False by (cases r) (auto simp: handleBatchInsert_def b sr)
    ultimately show ?thesis by simp
  qed
qed


lemma vertex_delivered:
  assumes "inflight p = []"
  shows "deliver srv 0 (click_add_vertex srv p) =
           (let (c', s') = handleAddVertex srv (acl p, aserver p) in p\<lparr>acl := c', aserver := s', inflight := []\<rparr>)"
proof -
  obtain s1 r where sr: "srv (aserver p) (AddVertexReq (newVertex (acl p))) = (s1, r)"
    by (cases "srv (aserver p) (AddVertexReq (newVertex (acl p)))")
  show ?thesis using assms
    by (cases r) (simp_all add: click_add_vertex_def handleAddVertex_def send_def deliver_def remove_nth_def sr)
qed

lemma edge_delivered:
  assumes "inflight p = []"
  shows "deliver srv 0 (click_add_edge srv p) =
           (let (c', s') = handleAddEdge srv (acl p, aserver p) in p\<lparr>acl := c', aserver := s', inflight := []\<rparr>)"
proof -
  define w where "w = (if weighted (acl p) then JNumber (parse_float (weight (acl p))) else JUndefined)"
  obtain s1 r where sr: "srv (aserver p) (AddEdgeReq (startVertex (acl p)) (endVertex (acl p)) (json_prop w)) = (s1, r)"
    by (cases "srv (aserver p) (AddEdgeReq (startVertex (acl p)) (endVertex (acl p)) (json_prop w))")
  show ?thesis using assms
    by (cases r) (simp_all add: click_add_edge_def handleAddEdge_def send_def deliver_def remove_nth_def sr
                   w_def [symmetric] Let_def)
qed

lemma apage_same: "inflight p = [] \<Longrightarrow> p\<lparr>acl := acl p, aserver := aserver p, inflight := []\<rparr> = p"
  by (cases p) simp

lemma async_refines_sync:
  assumes "inflight p = []"
  shows "arun srv [AInsert e, Deliver 0, Deliver 0] p =
           (let (c', s') = insert_step srv e (acl p, aserver p) in p\<lparr>acl := c', aserver := s', inflight := []\<rparr>)"
proof (cases e)
  case ClickBatchInsert
  then show ?thesis using assms batch_delivered [OF assms, of srv] apage_same [OF assms]
    by (simp add: Let_def)
next
  case ClickAddVertex
  then show ?thesis using assms vertex_delivered [OF assms, of srv] apage_same [OF assms]
    by (auto simp: Let_def split: prod.splits)
next
  case ClickAddEdge
  then show ?thesis using assms edge_delivered [OF assms, of srv] apage_same [OF assms]
    by (auto simp: Let_def split: prod.splits)
qed (use assms in \<open>auto simp: Let_def split: prod.splits\<close>)

end
