(* ===== verification/AsyncEngine.thy ===== *)
theory AsyncEngine
  imports Async System
begin

text \<open>
  The asynchronous insert handlers of \<open>Async\<close> against the engine
  \<open>serve\<close>: what a click sends and what delivering each kind of reply does,
  one lemma per step, so that an interleaving is computed step by step.
\<close>

lemma serve_info_req: "serve g info_req = (g, Ok (RInfo (graph_order g) (graph_size g)))"
  by (simp add: info_req_def serve_get_info)

lemma click_batch_serve:
  "click_batch serve p =
     (let g' = fst (insert_batch (fst (batch_items (batchData (acl p))))
                 (map (\<lambda>(a, b, w). (a, b, weight_of_wire w)) (map wire_of_cedge (snd (batch_items (batchData (acl p)))))) (aserver p))
      in p\<lparr>aserver := g', inflight := inflight p @ [(Ok (RItems (gverts g') (map wire_of_gedge (gedges g'))), KBatch)]\<rparr>)"
  by (simp add: click_batch_def send_def serve_InsertBatch Let_def split: prod.splits)

lemma deliver_batch_serve:
  assumes "i < length (inflight p)" and "inflight p ! i = (Ok (RItems vs ws), KBatch)"
  shows "deliver serve i p =
           p\<lparr>acl := (acl p)\<lparr>vertices := vs, edges := map cedge_of_wire ws\<rparr>,
             inflight := remove_nth i (inflight p) @ [(Ok (RInfo (graph_order (aserver p)) (graph_size (aserver p))), KInfo)]\<rparr>"
  using assms by (simp add: deliver_def send_def serve_info_req)

lemma deliver_info_any:
  assumes "i < length (inflight p)" and "inflight p ! i = (Ok (RInfo n m), KInfo)"
  shows "deliver srv i p = p\<lparr>acl := (acl p)\<lparr>graphInfo := (JsVal n, JsVal m)\<rparr>, inflight := remove_nth i (inflight p)\<rparr>"
  using assms by (simp add: deliver_def)

lemma click_add_edge_serve:
  assumes "\<not> weighted (acl p)" and "\<not> is_weighted (aserver p)"
  shows "click_add_edge serve p =
           p\<lparr>aserver := (aserver p)\<lparr>gverts := list_insert (endVertex (acl p)) (list_insert (startVertex (acl p)) (gverts (aserver p))),
                          gedges := gedges (aserver p) @ [(startVertex (acl p), endVertex (acl p), None)]\<rparr>,
             inflight := inflight p @ [(Ok (RMessage msg_edge), KAddEdge (startVertex (acl p)) (endVertex (acl p)) JUndefined)]\<rparr>"
proof -
  have "add_edge (startVertex (acl p)) (endVertex (acl p)) None (aserver p) =
        Inr ((aserver p)\<lparr>gverts := list_insert (endVertex (acl p)) (list_insert (startVertex (acl p)) (gverts (aserver p))),
                          gedges := gedges (aserver p) @ [(startVertex (acl p), endVertex (acl p), None)]\<rparr>)"
    using assms(2) by (simp add: add_edge_Inr weight_ok_def)
  with assms(1) show ?thesis by (simp add: click_add_edge_def send_def serve_AddEdge Let_def)
qed

lemma deliver_add_edge:
  assumes "i < length (inflight p)" and "inflight p ! i = (Ok r, KAddEdge a b w)"
  shows "deliver srv i p =
           p\<lparr>acl := (acl p)\<lparr>edges := edges (acl p) @ [Edge3 a b w], startVertex := [], endVertex := [], weight := []\<rparr>,
             inflight := remove_nth i (inflight p)\<rparr>"
  using assms by (simp add: deliver_def)

end
