(* ===== verification/BfsCorrect.thy ===== *)
theory BfsCorrect
  imports Paths
begin

text \<open>
  Correctness of the breadth-first search of \<open>Paths\<close> (spec section 4.3 and
  the lower-bound property of section 8).  A walk is a vertex list in which each
  vertex is a neighbour (\<open>adj_list\<close>) of the one before; \<open>walk_reach g s m\<close>
  is the set of vertices reached from \<open>s\<close> by a walk of at most \<open>m\<close>
  vertices.  The round invariant \<open>bfs_inv\<close> says that after \<open>k\<close> rounds the
  visited list is \<open>walk_reach g s (k + 1)\<close> without repetitions and the
  frontier holds exactly the vertices first reached in round \<open>k\<close>, each with a
  walk of \<open>k + 1\<close> vertices.  Since the visited list only grows while the
  frontier is not empty and stays inside the vertex list, \<open>length (gverts g) + 1\<close>
  rounds of fuel are enough; \<open>bfs_path_correct\<close> then states the contract
  \<open>bfs_spec\<close>: the search returns, a returned path is a walk from the source
  to the target no longer than any other such walk, and \<open>NoPath\<close> means
  that no walk from the source reaches the target.
\<close>

section \<open>Walks\<close>

fun walk :: "graph \<Rightarrow> label list \<Rightarrow> bool" where
  "walk g [] = False"
| "walk g [v] = True"
| "walk g (u # v # vs) = (v \<in> set (adj_list u g) \<and> walk g (v # vs))"

definition walk_reach :: "graph \<Rightarrow> label \<Rightarrow> nat \<Rightarrow> label set" where
  "walk_reach g s m = {v. \<exists>p. walk g p \<and> hd p = s \<and> last p = v \<and> length p \<le> m}"

definition nbrs :: "graph \<Rightarrow> label set \<Rightarrow> label set" where
  "nbrs g X = (\<Union>v\<in>X. set (adj_list v g))"

definition bfs_inv :: "graph \<Rightarrow> label \<Rightarrow> nat \<Rightarrow> label list \<Rightarrow> (label \<times> label list) list \<Rightarrow> bool" where
  "bfs_inv g s k vis fr \<longleftrightarrow>
     set vis = walk_reach g s (Suc k)
     \<and> set (map fst fr) = walk_reach g s (Suc k) - walk_reach g s k
     \<and> (\<forall>(v, p)\<in>set fr. walk g (rev p) \<and> hd (rev p) = s \<and> last (rev p) = v \<and> length p = Suc k)
     \<and> distinct vis
     \<and> (fr \<noteq> [] \<longrightarrow> k < length vis)"

text \<open>What a search result promises: a shortest walk, or the proof that none exists.\<close>

definition bfs_spec :: "graph \<Rightarrow> label \<Rightarrow> label \<Rightarrow> (engine_error + label list) option \<Rightarrow> bool" where
  "bfs_spec g s t r \<longleftrightarrow>
     (case r of
        None \<Rightarrow> False
      | Some (Inr p) \<Rightarrow> walk g p \<and> hd p = s \<and> last p = t
                        \<and> (\<forall>q. walk g q \<and> hd q = s \<and> last q = t \<longrightarrow> length p \<le> length q)
      | Some (Inl e) \<Rightarrow> e = NoPath \<and> (\<forall>q. walk g q \<and> hd q = s \<longrightarrow> last q \<noteq> t))"

lemma adj_list_in_gverts:
  assumes "graph_inv g" and "v \<in> set (adj_list u g)"
  shows "v \<in> set (gverts g)"
proof -
  from assms(2) obtain e where e: "e \<in> set (gedges g)" and v: "v \<in> set (edge_step (is_directed g) u e)"
    by (auto simp: adj_list_def)
  obtain a b w where abw: "e = (a, b, w)" by (cases e) auto
  have "set (edge_step (is_directed g) u (a, b, w)) \<subseteq> {a, b}"
    by (cases "a = u"; cases "b = u"; cases "is_directed g") (simp_all add: edge_step_eq)
  with v have "v = a \<or> v = b" unfolding abw by blast
  with assms(1) e abw show ?thesis by (auto simp: graph_inv_def)
qed

lemma walk_snoc: "p \<noteq> [] \<Longrightarrow> walk g (p @ [v]) \<longleftrightarrow> walk g p \<and> v \<in> set (adj_list (last p) g)"
  by (induction g p rule: walk.induct) auto

lemma walk_butlast:
  assumes "walk g p" and "2 \<le> length p"
  obtains q where "p = q @ [last p]" "q \<noteq> []" "walk g q" "last p \<in> set (adj_list (last q) g)"
proof -
  have "p = butlast p @ [last p]" using assms(2) by (cases p rule: rev_cases) auto
  moreover have "butlast p \<noteq> []" using assms(2) by (cases p rule: rev_cases) auto
  ultimately show ?thesis using assms(1) walk_snoc that by metis
qed

lemma walk_reach_0 [simp]: "walk_reach g s 0 = {}"
  by (auto simp: walk_reach_def)

lemma walk_reach_1 [simp]: "walk_reach g s (Suc 0) = {s}"
proof
  show "walk_reach g s (Suc 0) \<subseteq> {s}"
  proof
    fix v assume "v \<in> walk_reach g s (Suc 0)"
    then obtain p where "walk g p" "hd p = s" "last p = v" "length p \<le> Suc 0"
      by (auto simp: walk_reach_def)
    then show "v \<in> {s}" by (cases p) auto
  qed
  have "walk g [s] \<and> hd [s] = s \<and> last [s] = s \<and> length [s] \<le> Suc 0" by simp
  then show "{s} \<subseteq> walk_reach g s (Suc 0)" unfolding walk_reach_def by blast
qed

lemma walk_reach_mono: "m \<le> m' \<Longrightarrow> walk_reach g s m \<subseteq> walk_reach g s m'"
  by (auto simp: walk_reach_def)

lemma nbrs_walk_reach: "nbrs g (walk_reach g s m) \<subseteq> walk_reach g s (Suc m)"
proof
  fix v assume "v \<in> nbrs g (walk_reach g s m)"
  then obtain u p where u: "v \<in> set (adj_list u g)" and p: "walk g p" "hd p = s" "last p = u" "length p \<le> m"
    by (auto simp: nbrs_def walk_reach_def)
  then have "p \<noteq> []" by (cases p) auto
  with p u have "walk g (p @ [v]) \<and> hd (p @ [v]) = s \<and> last (p @ [v]) = v \<and> length (p @ [v]) \<le> Suc m"
    by (simp add: walk_snoc)
  then show "v \<in> walk_reach g s (Suc m)" unfolding walk_reach_def mem_Collect_eq by (intro exI)
qed

lemma walk_reach_Suc_Suc:
  "walk_reach g s (Suc (Suc m)) = walk_reach g s (Suc m) \<union> nbrs g (walk_reach g s (Suc m))"
proof
  show "walk_reach g s (Suc (Suc m)) \<subseteq> walk_reach g s (Suc m) \<union> nbrs g (walk_reach g s (Suc m))"
  proof
    fix v assume "v \<in> walk_reach g s (Suc (Suc m))"
    then obtain p where p: "walk g p" "hd p = s" "last p = v" "length p \<le> Suc (Suc m)"
      by (auto simp: walk_reach_def)
    show "v \<in> walk_reach g s (Suc m) \<union> nbrs g (walk_reach g s (Suc m))"
    proof (cases "length p \<le> Suc m")
      case True
      with p show ?thesis by (auto simp: walk_reach_def)
    next
      case False
      then have "2 \<le> length p" by simp
      with p(1) obtain q where q: "p = q @ [last p]" "q \<noteq> []" "walk g q" "last p \<in> set (adj_list (last q) g)"
        by (rule walk_butlast)
      have "length q \<le> Suc m" using p(4) q(1) by (metis Suc_le_mono length_append_singleton)
      moreover have "hd q = s" using p(2) q(1,2) by (metis hd_append2)
      ultimately have "last q \<in> walk_reach g s (Suc m)" using q(3) by (auto simp: walk_reach_def)
      with q(4) p(3) show ?thesis by (auto simp: nbrs_def)
    qed
  qed
  show "walk_reach g s (Suc m) \<union> nbrs g (walk_reach g s (Suc m)) \<subseteq> walk_reach g s (Suc (Suc m))"
    using walk_reach_mono [of "Suc m" "Suc (Suc m)" g s] nbrs_walk_reach [of g s "Suc m"] by auto
qed

lemma nbrs_Un: "nbrs g (A \<union> B) = nbrs g A \<union> nbrs g B"
  by (auto simp: nbrs_def)

lemma walk_reach_frontier:
  "walk_reach g s (Suc (Suc k)) = walk_reach g s (Suc k) \<union> nbrs g (walk_reach g s (Suc k) - walk_reach g s k)"
proof -
  have "walk_reach g s (Suc k) = (walk_reach g s (Suc k) - walk_reach g s k) \<union> walk_reach g s k"
    using walk_reach_mono [of k "Suc k" g s] by auto
  then have "nbrs g (walk_reach g s (Suc k)) = nbrs g (walk_reach g s (Suc k) - walk_reach g s k) \<union> nbrs g (walk_reach g s k)"
    by (metis nbrs_Un)
  with nbrs_walk_reach [of g s k] walk_reach_Suc_Suc [of g s k] show ?thesis by auto
qed

lemma walk_reach_stable:
  assumes "walk_reach g s (Suc k) = walk_reach g s k"
  shows "walk_reach g s m \<subseteq> walk_reach g s k"
proof (cases k)
  case 0
  with assms show ?thesis by simp
next
  case (Suc j)
  note kj = this
  have st: "walk_reach g s (Suc j + n) = walk_reach g s (Suc j)" for n
  proof (induction n)
    case 0
    then show ?case by simp
  next
    case (Suc n)
    have "walk_reach g s (Suc j + Suc n) = walk_reach g s (Suc (Suc (j + n)))" by simp
    also have "\<dots> = walk_reach g s (Suc j) \<union> nbrs g (walk_reach g s (Suc j))"
      using walk_reach_Suc_Suc [of g s "j + n"] Suc.IH by simp
    also have "\<dots> = walk_reach g s (Suc (Suc j))" using walk_reach_Suc_Suc [of g s j] by simp
    also have "\<dots> = walk_reach g s (Suc j)" using assms kj by simp
    finally show ?case .
  qed
  show ?thesis
  proof (cases "m \<le> k")
    case True
    then show ?thesis by (rule walk_reach_mono)
  next
    case False
    then have "m = Suc j + (m - Suc j)" using kj by simp
    then show ?thesis using st [of "m - Suc j"] kj by simp
  qed
qed

lemma walk_reach_gverts:
  assumes "graph_inv g" and "s \<in> set (gverts g)"
  shows "walk_reach g s m \<subseteq> set (gverts g)"
proof
  fix v assume "v \<in> walk_reach g s m"
  then obtain p where p: "walk g p" "hd p = s" "last p = v" by (auto simp: walk_reach_def)
  show "v \<in> set (gverts g)"
  proof (cases "2 \<le> length p")
    case True
    with p(1) obtain q where "last p \<in> set (adj_list (last q) g)" by (rule walk_butlast)
    with assms(1) p(3) show ?thesis using adj_list_in_gverts by blast
  next
    case False
    have "p \<noteq> []" using p(1) by (cases p) simp_all
    moreover have "length p < 2" using False by simp
    ultimately have "p = [hd p]" by (cases p) simp_all
    then have "v = s" using p(2,3) by (metis last_ConsL)
    with assms(2) show ?thesis by simp
  qed
qed


section \<open>One BFS layer\<close>

lemma visit_nbrs_props:
  "set (fst (visit_nbrs p us (vis, nxt))) = set vis \<union> set us
   \<and> set (map fst (snd (visit_nbrs p us (vis, nxt)))) = set (map fst nxt) \<union> (set us - set vis)
   \<and> set (snd (visit_nbrs p us (vis, nxt))) \<subseteq> set nxt \<union> (\<lambda>u. (u, u # p)) ` set us
   \<and> (distinct vis \<longrightarrow> distinct (fst (visit_nbrs p us (vis, nxt))))"
proof (induction us arbitrary: vis nxt)
  case Nil
  then show ?case by simp
next
  case (Cons u us)
  show ?case
  proof (cases "u \<in> set vis")
    case True
    with Cons.IH [of vis nxt] show ?thesis by auto
  next
    case False
    with Cons.IH [of "vis @ [u]" "nxt @ [(u, u # p)]"] show ?thesis by auto
  qed
qed

lemma expand_props:
  "set (fst (expand g fr (vis, nxt))) = set vis \<union> nbrs g (set (map fst fr))
   \<and> set (map fst (snd (expand g fr (vis, nxt)))) = set (map fst nxt) \<union> (nbrs g (set (map fst fr)) - set vis)
   \<and> set (snd (expand g fr (vis, nxt))) \<subseteq>
       set nxt \<union> (\<Union>(v, p)\<in>set fr. (\<lambda>u. (u, u # p)) ` set (adj_list v g))
   \<and> (distinct vis \<longrightarrow> distinct (fst (expand g fr (vis, nxt))))"
proof (induction fr arbitrary: vis nxt)
  case Nil
  then show ?case by (simp add: nbrs_def)
next
  case (Cons vp fr)
  obtain v p where vp: "vp = (v, p)" by (cases vp)
  define vis1 where "vis1 = fst (visit_nbrs p (adj_list v g) (vis, nxt))"
  define nxt1 where "nxt1 = snd (visit_nbrs p (adj_list v g) (vis, nxt))"
  have e: "expand g (vp # fr) (vis, nxt) = expand g fr (vis1, nxt1)"
    by (simp add: vp vis1_def nxt1_def)
  have V: "set vis1 = set vis \<union> set (adj_list v g)"
    and N: "set (map fst nxt1) = set (map fst nxt) \<union> (set (adj_list v g) - set vis)"
    and S: "set nxt1 \<subseteq> set nxt \<union> (\<lambda>u. (u, u # p)) ` set (adj_list v g)"
    and D: "distinct vis \<longrightarrow> distinct vis1"
    using visit_nbrs_props [of p "adj_list v g" vis nxt] by (simp_all add: vis1_def nxt1_def)
  have nb: "nbrs g (set (map fst (vp # fr))) = set (adj_list v g) \<union> nbrs g (set (map fst fr))"
    by (auto simp: vp nbrs_def)
  have IH1: "set (fst (expand g fr (vis1, nxt1))) = set vis1 \<union> nbrs g (set (map fst fr))"
    and IH2: "set (map fst (snd (expand g fr (vis1, nxt1)))) = set (map fst nxt1) \<union> (nbrs g (set (map fst fr)) - set vis1)"
    and IH3: "set (snd (expand g fr (vis1, nxt1))) \<subseteq>
       set nxt1 \<union> (\<Union>(v, p)\<in>set fr. (\<lambda>u. (u, u # p)) ` set (adj_list v g))"
    and IH4: "distinct vis1 \<longrightarrow> distinct (fst (expand g fr (vis1, nxt1)))"
    using Cons.IH [of vis1 nxt1] by blast+
  have U: "(\<Union>(v, p)\<in>set (vp # fr). (\<lambda>u. (u, u # p)) ` set (adj_list v g))
         = (\<lambda>u. (u, u # p)) ` set (adj_list v g) \<union> (\<Union>(v, p)\<in>set fr. (\<lambda>u. (u, u # p)) ` set (adj_list v g))"
    by (simp add: vp)
  show ?case
    unfolding e nb U
  proof (intro conjI)
    show "set (fst (expand g fr (vis1, nxt1))) = set vis \<union> (set (adj_list v g) \<union> nbrs g (set (map fst fr)))"
      using IH1 V by auto
    show "set (map fst (snd (expand g fr (vis1, nxt1)))) =
          set (map fst nxt) \<union> (set (adj_list v g) \<union> nbrs g (set (map fst fr)) - set vis)"
      using IH2 N V by auto
    show "set (snd (expand g fr (vis1, nxt1))) \<subseteq> set nxt \<union> ((\<lambda>u. (u, u # p)) ` set (adj_list v g)
            \<union> (\<Union>(v, p)\<in>set fr. (\<lambda>u. (u, u # p)) ` set (adj_list v g)))"
      using IH3 S by blast
    show "distinct vis \<longrightarrow> distinct (fst (expand g fr (vis1, nxt1)))"
      using IH4 D by blast
  qed
qed

lemma bfs_inv_init: "bfs_inv g s 0 [s] [(s, [s])]"
  by (simp add: bfs_inv_def)

lemma bfs_inv_step:
  assumes inv: "bfs_inv g s k vis fr" and ne: "fr \<noteq> []"
  shows "bfs_inv g s (Suc k) (fst (expand g fr (vis, []))) (snd (expand g fr (vis, [])))"
proof -
  let ?F = "walk_reach g s (Suc k) - walk_reach g s k"
  define vis' where "vis' = fst (expand g fr (vis, []))"
  define fr' where "fr' = snd (expand g fr (vis, []))"
  have fst_fr: "set (map fst fr) = ?F" and vis: "set vis = walk_reach g s (Suc k)"
    and paths: "\<forall>(v, p)\<in>set fr. walk g (rev p) \<and> hd (rev p) = s \<and> last (rev p) = v \<and> length p = Suc k"
    and dist: "distinct vis" and len: "k < length vis"
    using inv ne by (auto simp: bfs_inv_def)
  have V: "set vis' = set vis \<union> nbrs g ?F"
    and N: "set (map fst fr') = nbrs g ?F - set vis"
    and S: "set fr' \<subseteq> (\<Union>(v, p)\<in>set fr. (\<lambda>u. (u, u # p)) ` set (adj_list v g))"
    and D: "distinct vis'"
    using expand_props [of g fr vis "[]"] dist fst_fr by (simp_all add: vis'_def fr'_def)
  have reach: "walk_reach g s (Suc (Suc k)) = walk_reach g s (Suc k) \<union> nbrs g ?F"
    by (rule walk_reach_frontier)
  have V': "set vis' = walk_reach g s (Suc (Suc k))" using V vis reach by simp
  have N': "set (map fst fr') = walk_reach g s (Suc (Suc k)) - walk_reach g s (Suc k)"
    using N vis reach by auto
  have P': "\<forall>(u, q)\<in>set fr'. walk g (rev q) \<and> hd (rev q) = s \<and> last (rev q) = u \<and> length q = Suc (Suc k)"
  proof
    fix x assume "x \<in> set fr'"
    with S obtain u v p where x: "x = (u, u # p)" and vp: "(v, p) \<in> set fr" and u: "u \<in> set (adj_list v g)"
      by blast
    from paths vp have w: "walk g (rev p)" "hd (rev p) = s" "last (rev p) = v" "length p = Suc k" by auto
    then have "rev p \<noteq> []" by auto
    with w u show "case x of (u, q) \<Rightarrow> walk g (rev q) \<and> hd (rev q) = s \<and> last (rev q) = u \<and> length q = Suc (Suc k)"
      by (simp add: x walk_snoc)
  qed
  have L: "fr' \<noteq> [] \<longrightarrow> Suc k < length vis'"
  proof
    assume "fr' \<noteq> []"
    then obtain u where "u \<in> set (map fst fr')" by (cases fr') auto
    with N have "u \<in> set vis'" "u \<notin> set vis" using V by auto
    then have "set vis \<subset> set vis'" using V by auto
    then have "card (set vis) < card (set vis')" by (simp add: psubset_card_mono)
    with dist D len show "Suc k < length vis'" by (simp add: distinct_card)
  qed
  show ?thesis
    unfolding vis'_def[symmetric] fr'_def[symmetric] bfs_inv_def using V' N' P' D L by blast
qed


section \<open>The search\<close>

lemma walk_reach_last: "walk g q \<Longrightarrow> last q \<in> walk_reach g (hd q) (length q)"
  by (auto simp: walk_reach_def)

lemma bfs_correct:
  assumes g: "graph_inv g" "s \<in> set (gverts g)"
    and "bfs_inv g s k vis fr" and "t \<notin> walk_reach g s k"
    and "0 < fuel" and "length (gverts g) < k + fuel"
  shows "bfs_spec g s t (bfs fuel g t vis fr)"
  using assms(3-)
proof (induction fuel arbitrary: k vis fr)
  case 0
  then show ?case by simp
next
  case (Suc n)
  have vis: "set vis = walk_reach g s (Suc k)" and fr: "set (map fst fr) = walk_reach g s (Suc k) - walk_reach g s k"
    and paths: "\<forall>(v, p)\<in>set fr. walk g (rev p) \<and> hd (rev p) = s \<and> last (rev p) = v \<and> length p = Suc k"
    and dist: "distinct vis" and len: "fr \<noteq> [] \<longrightarrow> k < length vis"
    using Suc.prems(1) by (simp_all add: bfs_inv_def)
  show ?case
  proof (cases "find (\<lambda>(v, p). v = t) fr")
    case (Some x)
    obtain v p where x: "x = (v, p)" by (cases x)
    from Some x have mem: "(v, p) \<in> set fr" and vt: "v = t"
      by (auto simp: find_Some_iff) (metis nth_mem)
    from paths mem have w: "walk g (rev p)" "hd (rev p) = s" "last (rev p) = v" "length p = Suc k" by auto
    have "length (rev p) \<le> length q" if q: "walk g q" "hd q = s" "last q = t" for q
    proof (rule ccontr)
      assume "\<not> length (rev p) \<le> length q"
      with w(4) have "length q \<le> k" by simp
      with q have "t \<in> walk_reach g s k" by (auto simp: walk_reach_def)
      with Suc.prems(2) show False by simp
    qed
    with w vt show ?thesis by (simp add: Some x bfs_spec_def)
  next
    case None
    then have tfr: "t \<notin> set (map fst fr)" by (auto simp: find_None_iff)
    show ?thesis
    proof (cases "fr = []")
      case True
      with fr have eq: "walk_reach g s (Suc k) = walk_reach g s k"
        using walk_reach_mono [of k "Suc k" g s] by auto
      have "last q \<noteq> t" if q: "walk g q" "hd q = s" for q
      proof
        assume "last q = t"
        with q walk_reach_last [OF q(1)] have "t \<in> walk_reach g s (length q)" by simp
        with walk_reach_stable [OF eq] Suc.prems(2) show False by blast
      qed
      with True None show ?thesis by (simp add: bfs_spec_def)
    next
      case False
      define vis' where "vis' = fst (expand g fr (vis, []))"
      define fr' where "fr' = snd (expand g fr (vis, []))"
      have step: "bfs (Suc n) g t vis fr = bfs n g t vis' fr'"
        using None False by (simp add: vis'_def fr'_def split: prod.splits)
      have inv': "bfs_inv g s (Suc k) vis' fr'"
        unfolding vis'_def fr'_def using Suc.prems(1) False by (rule bfs_inv_step)
      have t': "t \<notin> walk_reach g s (Suc k)" using tfr fr Suc.prems(2) by auto
      have "length vis = card (set vis)" using dist by (simp add: distinct_card)
      also have "\<dots> \<le> card (set (gverts g))"
        using vis walk_reach_gverts [OF g] by (simp add: card_mono)
      also have "\<dots> \<le> length (gverts g)" by (rule card_length)
      finally have "k < length (gverts g)" using len False by simp
      with Suc.prems(4) have "0 < n" "length (gverts g) < Suc k + n" by simp_all
      with Suc.IH [OF inv' t'] have "bfs_spec g s t (bfs n g t vis' fr')" by blast
      then show ?thesis by (simp only: step)
    qed
  qed
qed

lemma bfs_path_correct:
  assumes "graph_inv g" and "s \<in> set (gverts g)"
  shows "bfs_spec g s t (bfs_path g s t)"
  unfolding bfs_path_def using assms bfs_inv_init by (rule bfs_correct) simp_all

lemma shortest_path_unweighted:
  "s \<in> set (gverts g) \<Longrightarrow> t \<in> set (gverts g) \<Longrightarrow> \<not> is_weighted g \<Longrightarrow>
   shortest_path g s t = map_option (map_sum id (\<lambda>p. (p, of_nat (length p - 1)))) (bfs_path g s t)"
  by (simp add: shortest_path_def)

end
