(* ===== verification/DijkstraCorrect.thy ===== *)
theory DijkstraCorrect
  imports BfsCorrect
begin

text \<open>
  The Dijkstra search of \<open>Paths\<close> always answers on a well-formed graph with
  non-negative weights: its loop keeps \<open>dij_inv\<close>.  Under \<open>dij_inv\<close> every
  vertex with a known distance, other than the source, has a settled
  predecessor, and a settled vertex's predecessor was settled before it; the
  settled vertices are distinct vertices of the graph, and each has a distance
  no larger than that of any unsettled vertex, so relaxing never changes a
  settled vertex.  Following \<open>prev\<close> from the target therefore reaches the
  source in fewer steps than there are vertices, and \<open>trace_back\<close>'s fuel is
  enough.  With \<open>BfsCorrect\<close> this makes the shortest-path query total
  (\<open>shortest_path_returns\<close>).
\<close>

definition settled_before :: "label list \<Rightarrow> label \<Rightarrow> label \<Rightarrow> bool" where
  "settled_before xs u v \<longleftrightarrow> u \<in> set (takeWhile (\<lambda>x. x \<noteq> v) xs)"

definition dij_inv :: "graph \<Rightarrow> label \<Rightarrow> dstate \<Rightarrow> bool" where
  "dij_inv g s st \<longleftrightarrow>
     dist st s \<noteq> None
     \<and> (\<forall>v. dist st v \<noteq> None \<longrightarrow> v \<in> set (gverts g))
     \<and> distinct (settled st) \<and> set (settled st) \<subseteq> set (gverts g)
     \<and> (\<forall>v\<in>set (settled st). dist st v \<noteq> None)
     \<and> (\<forall>v. v \<noteq> s \<longrightarrow> dist st v \<noteq> None \<longrightarrow>
           (\<exists>u. prev st v = Some u \<and> u \<in> set (settled st)
                \<and> (v \<in> set (settled st) \<longrightarrow> settled_before (settled st) u v)))
     \<and> (\<forall>v\<in>set (settled st). \<forall>w dv dw. w \<notin> set (settled st) \<longrightarrow>
           dist st v = Some dv \<longrightarrow> dist st w = Some dw \<longrightarrow> dv \<le> dw)"

section \<open>Selection and relaxation\<close>

lemma pick_min_None:
  "pick_min st vs = None \<longleftrightarrow> (\<forall>v\<in>set vs. v \<in> set (settled st) \<or> dist st v = None)"
  by (induction st vs rule: pick_min.induct) (auto simp: Let_def split: option.splits)

lemma pick_min_Some:
  "pick_min st vs = Some (u, du) \<Longrightarrow>
     u \<in> set vs \<and> u \<notin> set (settled st) \<and> dist st u = Some du
     \<and> (\<forall>v\<in>set vs. \<forall>dv. v \<notin> set (settled st) \<longrightarrow> dist st v = Some dv \<longrightarrow> du \<le> dv)"
proof (induction st vs arbitrary: u du rule: pick_min.induct)
  case (1 st)
  then show ?case by simp
next
  case (2 st v vs)
  note IH = "2.IH"
  show ?case
  proof (cases "dist st v = None \<or> v \<in> set (settled st)")
    case True
    then have "pick_min st vs = Some (u, du)" using "2.prems" by (auto simp: Let_def split: option.splits)
    with IH True show ?thesis by auto
  next
    case False
    then obtain d where d: "dist st v = Some d" and nv: "v \<notin> set (settled st)" by auto
    show ?thesis
    proof (cases "pick_min st vs")
      case None
      then have "u = v" "du = d" using "2.prems" d nv by (simp_all add: Let_def)
      with None d nv show ?thesis by (auto simp: pick_min_None)
    next
      case (Some b)
      obtain a db where b: "b = (a, db)" by (cases b)
      from IH [of a db] Some b have ih: "a \<in> set vs" "a \<notin> set (settled st)" "dist st a = Some db"
        "\<forall>w\<in>set vs. \<forall>dw. w \<notin> set (settled st) \<longrightarrow> dist st w = Some dw \<longrightarrow> db \<le> dw" by auto
      show ?thesis
      proof (cases "db < d")
        case True
        then have "u = a" "du = db" using "2.prems" d nv Some b by (simp_all add: Let_def)
        with ih True d show ?thesis by force
      next
        case False
        then have "u = v" "du = d" using "2.prems" d nv Some b by (simp_all add: Let_def)
        with ih False d nv show ?thesis by force
      qed
    qed
  qed
qed


lemma relax_settled [simp]: "settled (relax u du vcs st) = settled st"
  by (induction u du vcs st rule: relax.induct) simp_all

lemma relax_point:
  "(dist (relax u du vcs st) v = dist st v \<and> prev (relax u du vcs st) v = prev st v)
   \<or> (\<exists>c. (v, c) \<in> set vcs \<and> dist (relax u du vcs st) v = Some (du + c)
          \<and> prev (relax u du vcs st) v = Some u \<and> (\<forall>dv. dist st v = Some dv \<longrightarrow> du + c < dv))"
proof (induction vcs arbitrary: st)
  case Nil
  then show ?case by simp
next
  case (Cons vc vcs)
  obtain v0 c0 where vc: "vc = (v0, c0)" by (cases vc)
  define imp where "imp = (case dist st v0 of None \<Rightarrow> True | Some dv \<Rightarrow> du + c0 < dv)"
  define st1 where "st1 = (if imp then st\<lparr>dist := (dist st)(v0 \<mapsto> du + c0), prev := (prev st)(v0 \<mapsto> u)\<rparr> else st)"
  have r: "relax u du (vc # vcs) st = relax u du vcs st1" by (simp add: vc st1_def imp_def)
  have st1: "(dist st1 v = dist st v \<and> prev st1 v = prev st v)
             \<or> (v = v0 \<and> dist st1 v = Some (du + c0) \<and> prev st1 v = Some u
                \<and> (\<forall>dv. dist st v = Some dv \<longrightarrow> du + c0 < dv))"
    by (auto simp: st1_def imp_def split: option.splits)
  from Cons.IH [of st1] show ?case
  proof
    assume "dist (relax u du vcs st1) v = dist st1 v \<and> prev (relax u du vcs st1) v = prev st1 v"
    with st1 show ?case unfolding r by (auto simp: vc)
  next
    assume "\<exists>c. (v, c) \<in> set vcs \<and> dist (relax u du vcs st1) v = Some (du + c)
          \<and> prev (relax u du vcs st1) v = Some u \<and> (\<forall>dv. dist st1 v = Some dv \<longrightarrow> du + c < dv)"
    then obtain c where c: "(v, c) \<in> set vcs" "dist (relax u du vcs st1) v = Some (du + c)"
      "prev (relax u du vcs st1) v = Some u" "\<forall>dv. dist st1 v = Some dv \<longrightarrow> du + c < dv" by blast
    have "\<forall>dv. dist st v = Some dv \<longrightarrow> du + c < dv"
      using st1
    proof
      assume "dist st1 v = dist st v \<and> prev st1 v = prev st v"
      with c(4) show ?thesis by simp
    next
      assume h: "v = v0 \<and> dist st1 v = Some (du + c0) \<and> prev st1 v = Some u
                \<and> (\<forall>dv. dist st v = Some dv \<longrightarrow> du + c0 < dv)"
      then have "dist st1 v = Some (du + c0)" by blast
      with c(4) have "du + c < du + c0" by blast
      with h show ?thesis by auto
    qed
    with c show ?case unfolding r by (auto simp: vc)
  qed
qed


lemma wedge_step_props:
  assumes "graph_inv g" and "nonneg_weights g"
    and "(v, c) \<in> set (concat (map (wedge_step d u) (gedges g)))"
  shows "v \<in> set (gverts g) \<and> 0 \<le> c"
proof -
  from assms(3) obtain e where e: "e \<in> set (gedges g)" and vc: "(v, c) \<in> set (wedge_step d u e)" by auto
  obtain a b w where abw: "e = (a, b, w)" by (cases e)
  have ab: "a \<in> set (gverts g)" "b \<in> set (gverts g)" using assms(1) e abw by (auto simp: graph_inv_def)
  have w: "0 \<le> (case w of Some x \<Rightarrow> x | None \<Rightarrow> 1)"
    using assms(2) e abw by (cases w) (auto simp: nonneg_weights_def list_all_iff)
  have "set (wedge_step d u (a, b, w)) \<subseteq> {(b, case w of Some x \<Rightarrow> x | None \<Rightarrow> 1), (a, case w of Some x \<Rightarrow> x | None \<Rightarrow> 1)}"
    by (cases "a = u"; cases "b = u"; cases d) (simp_all add: wedge_step_def Let_def)
  with vc abw ab w show ?thesis by auto
qed

lemma settled_before_snoc:
  "v \<in> set xs \<Longrightarrow> settled_before xs w v \<Longrightarrow> settled_before (xs @ [u]) w v"
  by (simp add: settled_before_def takeWhile_append1)

lemma settled_before_last:
  "u \<notin> set xs \<Longrightarrow> w \<in> set xs \<Longrightarrow> settled_before (xs @ [u]) w u"
proof -
  assume "u \<notin> set xs" and "w \<in> set xs"
  moreover from \<open>u \<notin> set xs\<close> have "takeWhile (\<lambda>x. x \<noteq> u) (xs @ [u]) = xs" by (induction xs) auto
  ultimately show ?thesis by (simp add: settled_before_def)
qed

lemma dij_inv_step:
  assumes inv: "dij_inv g s st" and g: "graph_inv g" "nonneg_weights g"
    and pick: "pick_min st (gverts g) = Some (u, du)"
  shows "dij_inv g s (relax u du (concat (map (wedge_step (is_directed g) u) (gedges g)))
                        (st\<lparr>settled := settled st @ [u]\<rparr>))"
proof -
  let ?vcs = "concat (map (wedge_step (is_directed g) u) (gedges g))"
  let ?st0 = "st\<lparr>settled := settled st @ [u]\<rparr>"
  let ?st' = "relax u du ?vcs ?st0"
  have P: "u \<in> set (gverts g)" "u \<notin> set (settled st)" "dist st u = Some du"
    "\<forall>v\<in>set (gverts g). \<forall>dv. v \<notin> set (settled st) \<longrightarrow> dist st v = Some dv \<longrightarrow> du \<le> dv"
    using pick_min_Some [OF pick] by auto
  have I: "dist st s \<noteq> None" "\<forall>v. dist st v \<noteq> None \<longrightarrow> v \<in> set (gverts g)"
    "distinct (settled st)" "set (settled st) \<subseteq> set (gverts g)"
    "\<forall>v\<in>set (settled st). dist st v \<noteq> None"
    "\<forall>v. v \<noteq> s \<longrightarrow> dist st v \<noteq> None \<longrightarrow>
           (\<exists>w. prev st v = Some w \<and> w \<in> set (settled st)
                \<and> (v \<in> set (settled st) \<longrightarrow> settled_before (settled st) w v))"
    "\<forall>v\<in>set (settled st). \<forall>w dv dw. w \<notin> set (settled st) \<longrightarrow>
           dist st v = Some dv \<longrightarrow> dist st w = Some dw \<longrightarrow> dv \<le> dw"
    using inv by (simp_all add: dij_inv_def)
  have settled': "settled ?st' = settled st @ [u]" by simp
  text \<open>A vertex whose distance changes is new: not settled and in the graph, at or beyond \<open>du\<close>.\<close>
  have pt: "(dist ?st' v = dist st v \<and> prev ?st' v = prev st v)
          \<or> (v \<notin> set (settled st) \<and> v \<noteq> u \<and> v \<in> set (gverts g)
             \<and> (\<exists>c. dist ?st' v = Some (du + c) \<and> 0 \<le> c) \<and> prev ?st' v = Some u)" for v
    using relax_point [of u du ?vcs ?st0 v]
  proof
    assume "dist ?st' v = dist ?st0 v \<and> prev ?st' v = prev ?st0 v"
    then show ?thesis by simp
  next
    assume "\<exists>c. (v, c) \<in> set ?vcs \<and> dist ?st' v = Some (du + c) \<and> prev ?st' v = Some u
              \<and> (\<forall>dv. dist ?st0 v = Some dv \<longrightarrow> du + c < dv)"
    then obtain c where c: "(v, c) \<in> set ?vcs" "dist ?st' v = Some (du + c)" "prev ?st' v = Some u"
      "\<forall>dv. dist st v = Some dv \<longrightarrow> du + c < dv" by auto
    have vc: "v \<in> set (gverts g)" "0 \<le> c" using wedge_step_props [OF g c(1)] by auto
    have ns: "v \<notin> set (settled st)"
    proof
      assume "v \<in> set (settled st)"
      with I(5) obtain dv where dv: "dist st v = Some dv" by auto
      with I(7) \<open>v \<in> set (settled st)\<close> P(2,3) have "dv \<le> du" by blast
      with c(4) dv vc(2) show False by fastforce
    qed
    have "v \<noteq> u" using c(4) P(3) vc(2) by fastforce
    with ns vc c show ?thesis by blast
  qed
  have c1: "dist ?st' s \<noteq> None" using pt [of s] I(1) by auto
  have c2: "\<forall>v. dist ?st' v \<noteq> None \<longrightarrow> v \<in> set (gverts g)"
  proof (intro allI impI)
    fix v assume "dist ?st' v \<noteq> None"
    with pt [of v] I(2) show "v \<in> set (gverts g)" by auto
  qed
  have c3: "distinct (settled ?st')" using I(3) P(2) by simp
  have c4: "set (settled ?st') \<subseteq> set (gverts g)" using I(4) P(1) by simp
  have c5: "\<forall>v\<in>set (settled ?st'). dist ?st' v \<noteq> None"
  proof
    fix v assume "v \<in> set (settled ?st')"
    then have "v \<in> set (settled st) \<or> v = u" by auto
    with pt [of v] I(5) P(3) show "dist ?st' v \<noteq> None" by auto
  qed
  have c6: "\<forall>v. v \<noteq> s \<longrightarrow> dist ?st' v \<noteq> None \<longrightarrow>
           (\<exists>w. prev ?st' v = Some w \<and> w \<in> set (settled ?st')
                \<and> (v \<in> set (settled ?st') \<longrightarrow> settled_before (settled ?st') w v))"
  proof (intro allI impI)
    fix v assume vs: "v \<noteq> s" and d: "dist ?st' v \<noteq> None"
    from pt [of v] show "\<exists>w. prev ?st' v = Some w \<and> w \<in> set (settled ?st')
                \<and> (v \<in> set (settled ?st') \<longrightarrow> settled_before (settled ?st') w v)"
    proof
      assume un: "dist ?st' v = dist st v \<and> prev ?st' v = prev st v"
      with d I(6) vs obtain w where w: "prev st v = Some w" "w \<in> set (settled st)"
        "v \<in> set (settled st) \<longrightarrow> settled_before (settled st) w v" by auto
      have "v \<in> set (settled ?st') \<longrightarrow> settled_before (settled ?st') w v"
        using w(2,3) P(2) settled_before_snoc settled_before_last by auto
      with un w show ?thesis by auto
    next
      assume "v \<notin> set (settled st) \<and> v \<noteq> u \<and> v \<in> set (gverts g)
             \<and> (\<exists>c. dist ?st' v = Some (du + c) \<and> 0 \<le> c) \<and> prev ?st' v = Some u"
      then show ?thesis by auto
    qed
  qed
  have lo: "dv \<le> du" if "v \<in> set (settled ?st')" "dist ?st' v = Some dv" for v dv
  proof -
    from that(1) have "v \<in> set (settled st) \<or> v = u" by auto
    with pt [of v] have un: "dist ?st' v = dist st v" by auto
    from that(1) show ?thesis
    proof (cases "v = u")
      case True
      with un that(2) P(3) show ?thesis by simp
    next
      case False
      with that(1) have "v \<in> set (settled st)" by simp
      with I(7) P(2,3) un that(2) show ?thesis by auto
    qed
  qed
  have hi: "du \<le> dw" if "w \<notin> set (settled ?st')" "dist ?st' w = Some dw" for w dw
    using pt [of w]
  proof
    assume "dist ?st' w = dist st w \<and> prev ?st' w = prev st w"
    with that I(2) P(4) show ?thesis by auto
  next
    assume "w \<notin> set (settled st) \<and> w \<noteq> u \<and> w \<in> set (gverts g)
             \<and> (\<exists>c. dist ?st' w = Some (du + c) \<and> 0 \<le> c) \<and> prev ?st' w = Some u"
    with that(2) show ?thesis by auto
  qed
  have c7: "\<forall>v\<in>set (settled ?st'). \<forall>w dv dw. w \<notin> set (settled ?st') \<longrightarrow>
           dist ?st' v = Some dv \<longrightarrow> dist ?st' w = Some dw \<longrightarrow> dv \<le> dw"
    using lo hi by (meson order_trans)
  show ?thesis unfolding dij_inv_def using c1 c2 c3 c4 c5 c6 c7 by blast
qed


section \<open>The loop and the reconstruction\<close>

lemma dij_inv_init:
  "s \<in> set (gverts g) \<Longrightarrow> dij_inv g s \<lparr>dist = Map.empty(s \<mapsto> 0), prev = Map.empty, settled = []\<rparr>"
  by (simp add: dij_inv_def)

lemma dij_loop_inv:
  assumes "graph_inv g" and "nonneg_weights g"
  shows "dij_inv g s st \<Longrightarrow> dij_inv g s (dijkstra_loop n g st)"
proof (induction n arbitrary: st)
  case 0
  then show ?case by simp
next
  case (Suc n)
  show ?case
  proof (cases "pick_min st (gverts g)")
    case None
    with Suc.prems show ?thesis by simp
  next
    case (Some ud)
    obtain u du where ud: "ud = (u, du)" by (cases ud)
    have "dij_inv g s (relax u du (concat (map (wedge_step (is_directed g) u) (gedges g)))
                        (st\<lparr>settled := settled st @ [u]\<rparr>))"
      using Suc.prems assms Some ud by (intro dij_inv_step) simp_all
    with Suc.IH Some ud show ?thesis by simp
  qed
qed

definition settled_pos :: "label list \<Rightarrow> label \<Rightarrow> nat" where
  "settled_pos xs v = length (takeWhile (\<lambda>x. x \<noteq> v) xs)"

lemma settled_before_pos:
  "distinct xs \<Longrightarrow> settled_before xs w v \<Longrightarrow> settled_pos xs w < settled_pos xs v"
  by (induction xs) (auto simp: settled_before_def settled_pos_def split: if_splits)

lemma settled_pos_less: "v \<in> set xs \<Longrightarrow> settled_pos xs v < length xs"
  by (induction xs) (auto simp: settled_pos_def)

lemma trace_back_settled:
  assumes inv: "dij_inv g s st"
  shows "v \<in> set (settled st) \<Longrightarrow> settled_pos (settled st) v < n \<Longrightarrow> \<exists>p. trace_back n st s v acc = Some p"
proof (induction n arbitrary: v acc)
  case 0
  then show ?case by simp
next
  case (Suc n)
  show ?case
  proof (cases "v = s")
    case True
    then show ?thesis by simp
  next
    case False
    from inv Suc.prems(1) have "dist st v \<noteq> None" by (simp add: dij_inv_def)
    with inv False Suc.prems(1) obtain w where w: "prev st v = Some w" "w \<in> set (settled st)"
      "settled_before (settled st) w v" unfolding dij_inv_def by blast
    have "settled_pos (settled st) w < settled_pos (settled st) v"
      using inv w(3) by (intro settled_before_pos) (simp_all add: dij_inv_def)
    with Suc.prems(2) have "settled_pos (settled st) w < n" by simp
    with Suc.IH [OF w(2)] obtain p where "trace_back n st s w (v # acc) = Some p" by blast
    with False w(1) show ?thesis by auto
  qed
qed

lemma dijkstra_path_returns:
  assumes g: "graph_inv g" "nonneg_weights g"
    and st: "s \<in> set (gverts g)" "t \<in> set (gverts g)"
  shows "dijkstra_path g s t \<noteq> None"
proof -
  define st where "st = dijkstra_loop (length (gverts g)) g
                          \<lparr>dist = Map.empty(s \<mapsto> 0), prev = Map.empty, settled = []\<rparr>"
  have inv: "dij_inv g s st" unfolding st_def using g dij_inv_init [OF st(1)] by (rule dij_loop_inv)
  have dist: "distinct (settled st)" and sub: "set (settled st) \<subseteq> set (gverts g)"
    using inv by (simp_all add: dij_inv_def)
  have len: "length (settled st) \<le> length (gverts g)"
    using dist sub by (metis card_mono distinct_card card_length finite_set order_trans)
  have "\<exists>p. trace_back (length (gverts g)) st s t [] = Some p" if d: "dist st t \<noteq> None"
  proof (cases "t = s")
    case True
    from st(2) obtain m where "length (gverts g) = Suc m" by (cases "gverts g") auto
    with True show ?thesis by simp
  next
    case False
    show ?thesis
    proof (cases "t \<in> set (settled st)")
      case True
      with len settled_pos_less [OF True] have "settled_pos (settled st) t < length (gverts g)" by simp
      with trace_back_settled [OF inv True] show ?thesis by blast
    next
      case nt: False
      with inv False d obtain w where w: "prev st t = Some w" "w \<in> set (settled st)"
        unfolding dij_inv_def by blast
      have "set (settled st) \<subseteq> set (gverts g) - {t}" using sub nt by auto
      then have "card (set (settled st)) \<le> card (set (gverts g) - {t})" by (simp add: card_mono)
      also have "\<dots> = card (set (gverts g)) - 1" using st(2) by simp
      also have "\<dots> \<le> length (gverts g) - 1" using card_length [of "gverts g"] by simp
      finally have "length (settled st) \<le> length (gverts g) - 1" using dist by (simp add: distinct_card)
      moreover from st(2) obtain m where m: "length (gverts g) = Suc m" by (cases "gverts g") auto
      ultimately have "settled_pos (settled st) w < m" using settled_pos_less [OF w(2)] by simp
      with trace_back_settled [OF inv w(2)] obtain p where "trace_back m st s w [t] = Some p" by blast
      with m False w(1) show ?thesis by auto
    qed
  qed
  then show ?thesis by (auto simp: dijkstra_path_def st_def[symmetric] Let_def split: option.splits)
qed


lemma shortest_path_returns:
  assumes "graph_inv g"
  shows "shortest_path g s t \<noteq> None"
proof (cases "s \<in> set (gverts g) \<and> t \<in> set (gverts g)")
  case False
  then show ?thesis by (auto simp: shortest_path_def)
next
  case True
  show ?thesis
  proof (cases "is_weighted g")
    case w: True
    then show ?thesis using assms True dijkstra_path_returns [of g s t] by (simp add: shortest_path_def)
  next
    case False
    have "bfs_spec g s t (bfs_path g s t)" using assms True by (simp add: bfs_path_correct)
    then have "bfs_path g s t \<noteq> None" by (cases "bfs_path g s t") (simp_all add: bfs_spec_def)
    with True False show ?thesis by (simp add: shortest_path_unweighted)
  qed
qed

end
