(* ===== verification/DijkstraOpt.thy ===== *)
theory DijkstraOpt
  imports DijkstraCorrect
begin

text \<open>
  Correctness of the Dijkstra search of \<open>Paths\<close> on a well-formed graph with
  non-negative weights.  \<open>path_cost g p d\<close> says that \<open>p\<close> is a walk that
  can be followed through edges whose weights add up to \<open>d\<close> (an unweighted
  edge counts 1, as in \<open>wedge_step\<close>).  Beside \<open>dij_inv\<close>, the loop keeps
  \<open>dij_cost_inv\<close>: the source has distance 0, distances are non-negative,
  each predecessor link is an edge whose weight is the difference of the two
  distances, every edge out of a settled vertex has been relaxed, and no walk
  from the source to a settled vertex is cheaper than its distance.  When the
  loop stops every vertex with a distance is settled, so \<open>dijkstra_path\<close>
  meets \<open>dij_spec\<close>: a cheapest walk with its cost, or NoPath when no walk
  joins the two vertices.
\<close>

abbreviation wedges :: "graph \<Rightarrow> label \<Rightarrow> (label \<times> rat) list" where
  "wedges g u \<equiv> concat (map (wedge_step (is_directed g) u) (gedges g))"

fun path_cost :: "graph \<Rightarrow> label list \<Rightarrow> rat \<Rightarrow> bool" where
  "path_cost g [] d = False"
| "path_cost g [v] d = (d = 0)"
| "path_cost g (u # v # vs) d = (\<exists>(x, c)\<in>set (wedges g u). x = v \<and> path_cost g (v # vs) (d - c))"

definition dij_spec :: "graph \<Rightarrow> label \<Rightarrow> label \<Rightarrow> (engine_error + label list \<times> rat) option \<Rightarrow> bool" where
  "dij_spec g s t r =
     (case r of
        None \<Rightarrow> False
      | Some (Inr (p, d)) \<Rightarrow> path_cost g p d \<and> hd p = s \<and> last p = t
          \<and> (\<forall>q d'. path_cost g q d' \<and> hd q = s \<and> last q = t \<longrightarrow> d \<le> d')
      | Some (Inl e) \<Rightarrow> e = NoPath \<and> (\<forall>q d'. path_cost g q d' \<and> hd q = s \<longrightarrow> last q \<noteq> t))"

definition dij_cost_inv :: "graph \<Rightarrow> label \<Rightarrow> dstate \<Rightarrow> bool" where
  "dij_cost_inv g s st \<longleftrightarrow>
     dist st s = Some 0
     \<and> (\<forall>v d. dist st v = Some d \<longrightarrow> 0 \<le> d)
     \<and> (\<forall>v u. v \<noteq> s \<longrightarrow> prev st v = Some u \<longrightarrow>
          (\<exists>du dv. dist st u = Some du \<and> dist st v = Some dv \<and> (v, dv - du) \<in> set (wedges g u)))
     \<and> (\<forall>x\<in>set (settled st). \<forall>dx. dist st x = Some dx \<longrightarrow>
          (\<forall>(y, c)\<in>set (wedges g x). \<exists>dy. dist st y = Some dy \<and> dy \<le> dx + c)
          \<and> (\<forall>q d. path_cost g q d \<and> hd q = s \<and> last q = x \<longrightarrow> dx \<le> d))"

section \<open>Weighted walks\<close>

lemma wedge_step_fst: "map fst (wedge_step d u e) = edge_step d u e"
  by (cases e) (simp add: wedge_step_def edge_step_def Let_def)

lemma wedges_adj: "(v, c) \<in> set (wedges g u) \<Longrightarrow> v \<in> set (adj_list u g)"
proof -
  assume "(v, c) \<in> set (wedges g u)"
  then obtain e where e: "e \<in> set (gedges g)" "(v, c) \<in> set (wedge_step (is_directed g) u e)" by auto
  then have "v \<in> set (map fst (wedge_step (is_directed g) u e))" by force
  with e(1) show ?thesis by (auto simp: adj_list_def wedge_step_fst)
qed

lemma wedges_nonneg:
  assumes "graph_inv g" and "nonneg_weights g"
  shows "\<forall>(v, c)\<in>set (wedges g u). 0 \<le> c"
proof clarify
  fix v c assume "(v, c) \<in> set (wedges g u)"
  from wedge_step_props [OF assms this] show "0 \<le> c" by simp
qed

lemma path_cost_step:
  "path_cost g (u # v # vs) d \<longleftrightarrow> (\<exists>c. (v, c) \<in> set (wedges g u) \<and> path_cost g (v # vs) (d - c))"
  unfolding path_cost.simps(3) by blast

declare path_cost.simps(3) [simp del]

lemma path_cost_Nil: "path_cost g p d \<Longrightarrow> p \<noteq> []"
  by (cases p) simp_all

lemma path_cost_walk: "path_cost g p d \<Longrightarrow> walk g p"
proof (induction p arbitrary: d rule: induct_list012)
  case (3 u v vs)
  then obtain c where c: "(v, c) \<in> set (wedges g u)" "path_cost g (v # vs) (d - c)"
    by (auto simp: path_cost_step)
  with "3.IH"(2) wedges_adj show ?case by auto
qed simp_all

lemma path_cost_nonneg:
  assumes "graph_inv g" and "nonneg_weights g"
  shows "path_cost g p d \<Longrightarrow> 0 \<le> d"
proof (induction p arbitrary: d rule: induct_list012)
  case (3 u v vs)
  then obtain c where c: "(v, c) \<in> set (wedges g u)" "path_cost g (v # vs) (d - c)"
    by (auto simp: path_cost_step)
  have "0 \<le> c" using wedge_step_props [OF assms c(1)] by simp
  with "3.IH"(2) [OF c(2)] show ?case by simp
qed simp_all

lemma path_cost_Cons:
  "(v, c) \<in> set (wedges g u) \<Longrightarrow> path_cost g p d \<Longrightarrow> hd p = v \<Longrightarrow> path_cost g (u # p) (c + d)"
  by (cases p) (auto simp: path_cost_step)

text \<open>A walk that starts in \<open>S\<close> and ends outside it crosses out of \<open>S\<close> along one edge.\<close>

lemma path_cost_split:
  "path_cost g q d \<Longrightarrow> hd q \<in> S \<Longrightarrow> last q \<notin> S \<Longrightarrow>
     \<exists>q1 d1 x y c q2 d2. path_cost g q1 d1 \<and> hd q1 = hd q \<and> last q1 = x \<and> x \<in> S \<and> y \<notin> S
       \<and> (y, c) \<in> set (wedges g x) \<and> path_cost g (y # q2) d2 \<and> d = d1 + c + d2"
proof (induction q arbitrary: d rule: induct_list012)
  case (3 u v vs)
  then obtain c where c: "(v, c) \<in> set (wedges g u)" "path_cost g (v # vs) (d - c)"
    by (auto simp: path_cost_step)
  show ?case
  proof (cases "v \<in> S")
    case False
    have "path_cost g [u] 0" by simp
    with c False "3.prems"(2) show ?thesis by fastforce
  next
    case True
    have l: "last (v # vs) \<notin> S" using "3.prems"(3) by simp
    have h: "hd (v # vs) \<in> S" using True by simp
    from "3.IH"(2) [OF c(2) h l]
    obtain q1 d1 x y c' q2 d2 where r: "path_cost g q1 d1" "hd q1 = v" "last q1 = x" "x \<in> S" "y \<notin> S"
      "(y, c') \<in> set (wedges g x)" "path_cost g (y # q2) d2" "d - c = d1 + c' + d2"
      unfolding list.sel(1) by blast
    have "path_cost g (u # q1) (c + d1)" using path_cost_Cons [OF c(1) r(1,2)] .
    moreover have "last (u # q1) = x" using r(1,3) path_cost_Nil by fastforce
    moreover have "d = (c + d1) + c' + d2" using r(8) by simp
    ultimately show ?thesis using r(4-7) by fastforce
  qed
qed simp_all


section \<open>Relaxation only lowers distances\<close>

lemma relax_mono:
  "dist st v = Some d \<Longrightarrow> \<exists>d'. dist (relax u du vcs st) v = Some d' \<and> d' \<le> d"
proof (induction vcs arbitrary: st d)
  case Nil
  then show ?case by simp
next
  case (Cons vc vcs)
  obtain v0 c0 where vc: "vc = (v0, c0)" by (cases vc)
  define st1 where "st1 = (if (case dist st v0 of None \<Rightarrow> True | Some dv \<Rightarrow> du + c0 < dv)
       then st\<lparr>dist := (dist st)(v0 \<mapsto> du + c0), prev := (prev st)(v0 \<mapsto> u)\<rparr> else st)"
  have r: "relax u du (vc # vcs) st = relax u du vcs st1" by (simp add: vc st1_def)
  have "\<exists>d1. dist st1 v = Some d1 \<and> d1 \<le> d"
    using Cons.prems by (auto simp: st1_def split: option.splits)
  then obtain d1 where "dist st1 v = Some d1" "d1 \<le> d" by blast
  with Cons.IH [of st1 d1] show ?case unfolding r by fastforce
qed

lemma relax_le:
  "(v, c) \<in> set vcs \<Longrightarrow> \<exists>d'. dist (relax u du vcs st) v = Some d' \<and> d' \<le> du + c"
proof (induction vcs arbitrary: st)
  case Nil
  then show ?case by simp
next
  case (Cons vc vcs)
  obtain v0 c0 where vc: "vc = (v0, c0)" by (cases vc)
  define st1 where "st1 = (if (case dist st v0 of None \<Rightarrow> True | Some dv \<Rightarrow> du + c0 < dv)
       then st\<lparr>dist := (dist st)(v0 \<mapsto> du + c0), prev := (prev st)(v0 \<mapsto> u)\<rparr> else st)"
  have r: "relax u du (vc # vcs) st = relax u du vcs st1" by (simp add: vc st1_def)
  show ?case
  proof (cases "(v, c) = (v0, c0)")
    case True
    have "\<exists>d1. dist st1 v = Some d1 \<and> d1 \<le> du + c"
      using True by (auto simp: st1_def split: option.splits)
    then obtain d1 where "dist st1 v = Some d1" "d1 \<le> du + c" by blast
    with relax_mono [of st1 v d1 u du vcs] show ?thesis unfolding r by fastforce
  next
    case False
    with Cons.prems vc have "(v, c) \<in> set vcs" by auto
    with Cons.IH [of st1] show ?thesis unfolding r .
  qed
qed

lemma relax_keep:
  assumes "dist st x = Some dx" and "dx \<le> du" and "\<forall>(v, c)\<in>set vcs. 0 \<le> c"
  shows "dist (relax u du vcs st) x = Some dx \<and> prev (relax u du vcs st) x = prev st x"
  using relax_point [of u du vcs st x]
proof
  assume "\<exists>c. (x, c) \<in> set vcs \<and> dist (relax u du vcs st) x = Some (du + c)
          \<and> prev (relax u du vcs st) x = Some u \<and> (\<forall>dv. dist st x = Some dv \<longrightarrow> du + c < dv)"
  then obtain c where "(x, c) \<in> set vcs" "du + c < dx" using assms(1) by blast
  with assms(2,3) show ?thesis by fastforce
qed (use assms(1) in simp)


section \<open>One round keeps the cost invariant\<close>

lemma dij_keep:
  assumes inv: "dij_inv g s st" and cinv: "dij_cost_inv g s st" and g: "graph_inv g" "nonneg_weights g"
    and pick: "pick_min st (gverts g) = Some (u, du)"
    and x: "dist st x = Some dx" "x = s \<or> x = u \<or> x \<in> set (settled st)"
  shows "dist (relax u du (wedges g u) (st\<lparr>settled := settled st @ [u]\<rparr>)) x = Some dx
         \<and> prev (relax u du (wedges g u) (st\<lparr>settled := settled st @ [u]\<rparr>)) x = prev st x"
proof -
  have P: "u \<notin> set (settled st)" "dist st u = Some du" using pick_min_Some [OF pick] by auto
  have nn: "\<forall>(v, c)\<in>set (wedges g u). 0 \<le> c" using wedges_nonneg [OF g] .
  have "dx \<le> du"
  proof -
    consider "x = s" | "x = u" | "x \<in> set (settled st)" using x(2) by blast
    then show ?thesis
    proof cases
      case 1
      with cinv x(1) P(2) show ?thesis unfolding dij_cost_inv_def by force
    next
      case 2
      with x(1) P(2) show ?thesis by simp
    next
      case 3
      with inv x(1) P show ?thesis unfolding dij_inv_def by blast
    qed
  qed
  with relax_keep [of "st\<lparr>settled := settled st @ [u]\<rparr>" x dx du "wedges g u" u] nn x(1) show ?thesis by simp
qed

lemma dij_pick_optimal:
  assumes inv: "dij_inv g s st" and cinv: "dij_cost_inv g s st" and g: "graph_inv g" "nonneg_weights g"
    and pick: "pick_min st (gverts g) = Some (u, du)"
    and q: "path_cost g q d" "hd q = s" "last q = u"
  shows "du \<le> d"
proof -
  have P: "u \<notin> set (settled st)"
    "\<forall>v\<in>set (gverts g). \<forall>dv. v \<notin> set (settled st) \<longrightarrow> dist st v = Some dv \<longrightarrow> du \<le> dv"
    using pick_min_Some [OF pick] by auto
  have I: "\<forall>v. dist st v \<noteq> None \<longrightarrow> v \<in> set (gverts g)" "\<forall>v\<in>set (settled st). dist st v \<noteq> None"
    using inv by (simp_all add: dij_inv_def)
  have C: "dist st s = Some 0"
    "\<forall>x\<in>set (settled st). \<forall>dx. dist st x = Some dx \<longrightarrow>
          (\<forall>(y, c)\<in>set (wedges g x). \<exists>dy. dist st y = Some dy \<and> dy \<le> dx + c)
          \<and> (\<forall>q d. path_cost g q d \<and> hd q = s \<and> last q = x \<longrightarrow> dx \<le> d)"
    using cinv by (simp_all add: dij_cost_inv_def)
  show ?thesis
  proof (cases "s \<in> set (settled st)")
    case False
    with P(2) I(1) C(1) have "du \<le> 0" by fastforce
    with path_cost_nonneg [OF g q(1)] show ?thesis by simp
  next
    case True
    from path_cost_split [OF q(1), of "set (settled st)"] True q(2,3) P(1)
    obtain q1 d1 x y c q2 d2 where r: "path_cost g q1 d1" "hd q1 = s" "last q1 = x" "x \<in> set (settled st)"
      "y \<notin> set (settled st)" "(y, c) \<in> set (wedges g x)" "path_cost g (y # q2) d2" "d = d1 + c + d2"
      by blast
    from I(2) r(4) obtain dx where dx: "dist st x = Some dx" by blast
    with C(2) r(4) r(6) obtain dy where dy: "dist st y = Some dy" "dy \<le> dx + c" by fastforce
    have "dx \<le> d1" using C(2) r(1-4) dx by blast
    moreover have "du \<le> dy" using P(2) I(1) dy(1) r(5) by blast
    moreover have "0 \<le> d2" using path_cost_nonneg [OF g r(7)] .
    ultimately show ?thesis using dy(2) r(8) by simp
  qed
qed


lemma dij_settled_step:
  assumes inv: "dij_inv g s st" and cinv: "dij_cost_inv g s st" and g: "graph_inv g" "nonneg_weights g"
    and pick: "pick_min st (gverts g) = Some (u, du)"
  shows "\<forall>x\<in>set (settled (relax u du (wedges g u) (st\<lparr>settled := settled st @ [u]\<rparr>))). \<forall>dx.
          dist (relax u du (wedges g u) (st\<lparr>settled := settled st @ [u]\<rparr>)) x = Some dx \<longrightarrow>
          (\<forall>(y, c)\<in>set (wedges g x).
             \<exists>dy. dist (relax u du (wedges g u) (st\<lparr>settled := settled st @ [u]\<rparr>)) y = Some dy \<and> dy \<le> dx + c)
          \<and> (\<forall>q d. path_cost g q d \<and> hd q = s \<and> last q = x \<longrightarrow> dx \<le> d)"
proof (intro ballI allI impI)
  let ?st0 = "st\<lparr>settled := settled st @ [u]\<rparr>"
  let ?st' = "relax u du (wedges g u) ?st0"
  note keep = dij_keep [OF inv cinv g pick]
  fix x dx assume xs: "x \<in> set (settled ?st')" and dx: "dist ?st' x = Some dx"
  have P: "dist st u = Some du" using pick_min_Some [OF pick] by auto
  have C: "\<forall>x\<in>set (settled st). \<forall>dx. dist st x = Some dx \<longrightarrow>
          (\<forall>(y, c)\<in>set (wedges g x). \<exists>dy. dist st y = Some dy \<and> dy \<le> dx + c)
          \<and> (\<forall>q d. path_cost g q d \<and> hd q = s \<and> last q = x \<longrightarrow> dx \<le> d)"
    using cinv by (simp add: dij_cost_inv_def)
  show "(\<forall>(y, c)\<in>set (wedges g x). \<exists>dy. dist ?st' y = Some dy \<and> dy \<le> dx + c)
        \<and> (\<forall>q d. path_cost g q d \<and> hd q = s \<and> last q = x \<longrightarrow> dx \<le> d)"
  proof (cases "x = u")
    case True
    with keep [OF P] dx have "dx = du" by simp
    moreover have "\<forall>(y, c)\<in>set (wedges g u). \<exists>dy. dist ?st' y = Some dy \<and> dy \<le> du + c"
      using relax_le [of _ _ "wedges g u" u du ?st0] by blast
    moreover have "\<forall>q d. path_cost g q d \<and> hd q = s \<and> last q = u \<longrightarrow> du \<le> d"
      using dij_pick_optimal [OF inv cinv g pick] by blast
    ultimately show ?thesis using True by simp
  next
    case False
    with xs have x: "x \<in> set (settled st)" by simp
    with inv obtain dx0 where dx0: "dist st x = Some dx0" unfolding dij_inv_def by blast
    with keep [OF dx0] x dx have "dx = dx0" by simp
    with dx0 have e: "dist st x = Some dx" by simp
    have "\<forall>(y, c)\<in>set (wedges g x). \<exists>dy. dist ?st' y = Some dy \<and> dy \<le> dx + c"
    proof clarify
      fix y c assume "(y, c) \<in> set (wedges g x)"
      with C x e obtain dy where dy: "dist st y = Some dy" "dy \<le> dx + c" by fastforce
      have "dist ?st0 y = Some dy" using dy(1) by simp
      from relax_mono [OF this, of u du "wedges g u"] obtain d' where
        "dist ?st' y = Some d'" "d' \<le> dy" by blast
      with dy(2) show "\<exists>dy. dist ?st' y = Some dy \<and> dy \<le> dx + c" by auto
    qed
    with C x e show ?thesis by blast
  qed
qed

lemma dij_cost_step:
  assumes inv: "dij_inv g s st" and cinv: "dij_cost_inv g s st" and g: "graph_inv g" "nonneg_weights g"
    and pick: "pick_min st (gverts g) = Some (u, du)"
  shows "dij_cost_inv g s (relax u du (wedges g u) (st\<lparr>settled := settled st @ [u]\<rparr>))"
proof -
  let ?st0 = "st\<lparr>settled := settled st @ [u]\<rparr>"
  let ?st' = "relax u du (wedges g u) ?st0"
  note keep = dij_keep [OF inv cinv g pick]
  have P: "dist st u = Some du" using pick_min_Some [OF pick] by auto
  have I: "\<forall>v\<in>set (settled st). dist st v \<noteq> None"
    "\<forall>v. v \<noteq> s \<longrightarrow> dist st v \<noteq> None \<longrightarrow> (\<exists>w. prev st v = Some w \<and> w \<in> set (settled st)
           \<and> (v \<in> set (settled st) \<longrightarrow> settled_before (settled st) w v))"
    using inv by (simp_all add: dij_inv_def)
  have C: "dist st s = Some 0" "\<forall>v d. dist st v = Some d \<longrightarrow> 0 \<le> d"
    "\<forall>v w. v \<noteq> s \<longrightarrow> prev st v = Some w \<longrightarrow>
          (\<exists>dw dv. dist st w = Some dw \<and> dist st v = Some dv \<and> (v, dv - dw) \<in> set (wedges g w))"
    "\<forall>x\<in>set (settled st). \<forall>dx. dist st x = Some dx \<longrightarrow>
          (\<forall>(y, c)\<in>set (wedges g x). \<exists>dy. dist st y = Some dy \<and> dy \<le> dx + c)
          \<and> (\<forall>q d. path_cost g q d \<and> hd q = s \<and> last q = x \<longrightarrow> dx \<le> d)"
    using cinv by (simp_all add: dij_cost_inv_def)
  have nn: "\<forall>(v, c)\<in>set (wedges g u). 0 \<le> c" using wedges_nonneg [OF g] .
  have du0: "0 \<le> du" using C(2) P by blast
  have pt: "(dist ?st' v = dist st v \<and> prev ?st' v = prev st v)
      \<or> (\<exists>c. (v, c) \<in> set (wedges g u) \<and> dist ?st' v = Some (du + c) \<and> prev ?st' v = Some u)" for v
  proof -
    from relax_point [of u du "wedges g u" ?st0 v]
    have "(dist ?st' v = dist ?st0 v \<and> prev ?st' v = prev ?st0 v)
      \<or> (\<exists>c. (v, c) \<in> set (wedges g u) \<and> dist ?st' v = Some (du + c) \<and> prev ?st' v = Some u)" by blast
    then show ?thesis by simp
  qed
  have ku: "dist ?st' u = Some du" using keep [OF P] by simp
  have c1: "dist ?st' s = Some 0" using keep [OF C(1)] by simp
  have c2: "\<forall>v d. dist ?st' v = Some d \<longrightarrow> 0 \<le> d"
  proof (intro allI impI)
    fix v d assume d: "dist ?st' v = Some d"
    from pt [of v] show "0 \<le> d"
    proof
      assume "dist ?st' v = dist st v \<and> prev ?st' v = prev st v"
      with d C(2) show ?thesis by simp
    next
      assume "\<exists>c. (v, c) \<in> set (wedges g u) \<and> dist ?st' v = Some (du + c) \<and> prev ?st' v = Some u"
      then obtain c where "(v, c) \<in> set (wedges g u)" "dist ?st' v = Some (du + c)" by blast
      with d du0 nn show ?thesis by fastforce
    qed
  qed
  have c3: "\<forall>v w. v \<noteq> s \<longrightarrow> prev ?st' v = Some w \<longrightarrow>
          (\<exists>dw dv. dist ?st' w = Some dw \<and> dist ?st' v = Some dv \<and> (v, dv - dw) \<in> set (wedges g w))"
  proof (intro allI impI)
    fix v w assume vs: "v \<noteq> s" and pw: "prev ?st' v = Some w"
    from pt [of v] show "\<exists>dw dv. dist ?st' w = Some dw \<and> dist ?st' v = Some dv \<and> (v, dv - dw) \<in> set (wedges g w)"
    proof
      assume un: "dist ?st' v = dist st v \<and> prev ?st' v = prev st v"
      with pw have pv: "prev st v = Some w" by simp
      with C(3) vs obtain dw dv where e: "dist st w = Some dw" "dist st v = Some dv" "(v, dv - dw) \<in> set (wedges g w)"
        by blast
      from I(2) vs e(2) obtain w' where "prev st v = Some w'" "w' \<in> set (settled st)" by blast
      with pv have "w \<in> set (settled st)" by simp
      with keep [OF e(1)] have "dist ?st' w = Some dw" by simp
      with un e show ?thesis by auto
    next
      assume "\<exists>c. (v, c) \<in> set (wedges g u) \<and> dist ?st' v = Some (du + c) \<and> prev ?st' v = Some u"
      with pw ku show ?thesis by auto
    qed
  qed
  have c4: "\<forall>x\<in>set (settled ?st'). \<forall>dx. dist ?st' x = Some dx \<longrightarrow>
          (\<forall>(y, c)\<in>set (wedges g x). \<exists>dy. dist ?st' y = Some dy \<and> dy \<le> dx + c)
          \<and> (\<forall>q d. path_cost g q d \<and> hd q = s \<and> last q = x \<longrightarrow> dx \<le> d)"
    using dij_settled_step [OF inv cinv g pick] .
  show ?thesis unfolding dij_cost_inv_def using c1 c2 c3 c4 by (intro conjI)
qed


section \<open>The loop and the reconstruction\<close>

lemma dij_cost_init:
  "dij_cost_inv g s \<lparr>dist = Map.empty(s \<mapsto> 0), prev = Map.empty, settled = []\<rparr>"
  by (simp add: dij_cost_inv_def)

lemma dij_loop_cost_inv:
  assumes "graph_inv g" and "nonneg_weights g"
  shows "dij_inv g s st \<Longrightarrow> dij_cost_inv g s st \<Longrightarrow> dij_cost_inv g s (dijkstra_loop n g st)"
proof (induction n arbitrary: st)
  case 0
  then show ?case by simp
next
  case (Suc n)
  show ?case
  proof (cases "pick_min st (gverts g)")
    case None
    with Suc.prems show ?thesis by simp
  next
    case (Some ud)
    obtain u du where ud: "ud = (u, du)" by (cases ud)
    with Some have pick: "pick_min st (gverts g) = Some (u, du)" by simp
    have "dij_inv g s (relax u du (wedges g u) (st\<lparr>settled := settled st @ [u]\<rparr>))"
      using dij_inv_step [OF Suc.prems(1) assms pick] .
    moreover have "dij_cost_inv g s (relax u du (wedges g u) (st\<lparr>settled := settled st @ [u]\<rparr>))"
      using dij_cost_step [OF Suc.prems assms pick] .
    ultimately show ?thesis using Suc.IH pick by simp
  qed
qed

text \<open>One vertex is settled per round, so with one round per vertex the loop ends with
  every vertex of known distance settled.\<close>

lemma dij_loop_complete:
  assumes "graph_inv g" and "nonneg_weights g"
  shows "dij_inv g s st \<Longrightarrow> length (gverts g) \<le> length (settled st) + n \<Longrightarrow>
         v \<in> set (gverts g) \<Longrightarrow> dist (dijkstra_loop n g st) v \<noteq> None \<Longrightarrow>
         v \<in> set (settled (dijkstra_loop n g st))"
proof (induction n arbitrary: st)
  case 0
  have d: "distinct (settled st)" and sub: "set (settled st) \<subseteq> set (gverts g)"
    using "0.prems"(1) by (simp_all add: dij_inv_def)
  have "card (set (gverts g)) \<le> card (set (settled st))"
    using "0.prems"(2) card_length [of "gverts g"] d by (simp add: distinct_card)
  with sub have "set (settled st) = set (gverts g)" by (simp add: card_seteq)
  with "0.prems"(3) show ?case by simp
next
  case (Suc n)
  show ?case
  proof (cases "pick_min st (gverts g)")
    case None
    then have l: "dijkstra_loop (Suc n) g st = st" by simp
    have "\<forall>v\<in>set (gverts g). v \<in> set (settled st) \<or> dist st v = None" using None unfolding pick_min_None .
    with l Suc.prems(3,4) show ?thesis by fastforce
  next
    case (Some ud)
    obtain u du where ud: "ud = (u, du)" by (cases ud)
    with Some have pick: "pick_min st (gverts g) = Some (u, du)" by simp
    let ?st' = "relax u du (wedges g u) (st\<lparr>settled := settled st @ [u]\<rparr>)"
    have "dij_inv g s ?st'" using dij_inv_step [OF Suc.prems(1) assms pick] .
    moreover have "length (gverts g) \<le> length (settled ?st') + n" using Suc.prems(2) by simp
    moreover have "dist (dijkstra_loop n g ?st') v \<noteq> None" using Suc.prems(4) pick by simp
    ultimately have "v \<in> set (settled (dijkstra_loop n g ?st'))" using Suc.IH Suc.prems(3) by blast
    with pick show ?thesis by simp
  qed
qed

lemma trace_back_cost:
  assumes cinv: "dij_cost_inv g s st"
  shows "trace_back n st s v acc = Some p \<Longrightarrow> dist st v = Some dv \<Longrightarrow> path_cost g (v # acc) c \<Longrightarrow>
           path_cost g p (dv + c) \<and> hd p = s \<and> last p = last (v # acc)"
proof (induction n arbitrary: v acc c dv)
  case 0
  then show ?case by simp
next
  case (Suc n)
  show ?case
  proof (cases "v = s")
    case True
    have p: "p = s # acc" using Suc.prems(1) True by simp
    have "dv = 0" using Suc.prems(2) True cinv by (simp add: dij_cost_inv_def)
    with Suc.prems(3) True p show ?thesis by simp
  next
    case False
    with Suc.prems(1) have tb: "(case prev st v of None \<Rightarrow> None | Some u \<Rightarrow> trace_back n st s u (v # acc)) = Some p"
      by simp
    then obtain u where u: "prev st v = Some u" "trace_back n st s u (v # acc) = Some p"
      by (cases "prev st v") simp_all
    have "\<forall>v u. v \<noteq> s \<longrightarrow> prev st v = Some u \<longrightarrow>
          (\<exists>du dv. dist st u = Some du \<and> dist st v = Some dv \<and> (v, dv - du) \<in> set (wedges g u))"
      using cinv unfolding dij_cost_inv_def by blast
    with False u(1) obtain du dv' where e: "dist st u = Some du" "dist st v = Some dv'" "(v, dv' - du) \<in> set (wedges g u)"
      by blast
    with Suc.prems(2) have e3: "(v, dv - du) \<in> set (wedges g u)" by simp
    have "path_cost g (u # v # acc) ((dv - du) + c)"
      using path_cost_Cons [OF e3 Suc.prems(3)] by simp
    from Suc.IH [OF u(2) e(1) this] show ?thesis by simp
  qed
qed


section \<open>Correctness\<close>

lemma dijkstra_path_correct:
  assumes g: "graph_inv g" "nonneg_weights g"
    and st: "s \<in> set (gverts g)" "t \<in> set (gverts g)"
  shows "dij_spec g s t (dijkstra_path g s t)"
proof -
  define st0 where "st0 = \<lparr>dist = Map.empty(s \<mapsto> 0), prev = Map.empty, settled = []\<rparr>"
  define fin where "fin = dijkstra_loop (length (gverts g)) g st0"
  have i0: "dij_inv g s st0" unfolding st0_def using st(1) by (rule dij_inv_init)
  have inv: "dij_inv g s fin" unfolding fin_def using g i0 by (rule dij_loop_inv)
  have cinv: "dij_cost_inv g s fin" unfolding fin_def
    using dij_loop_cost_inv [OF g i0] dij_cost_init unfolding st0_def by blast
  have complete: "v \<in> set (settled fin)" if "v \<in> set (gverts g)" "dist fin v \<noteq> None" for v
  proof -
    have "length (gverts g) \<le> length (settled st0) + length (gverts g)" by simp
    from dij_loop_complete [OF g i0 this that(1)] that(2) show ?thesis unfolding fin_def by simp
  qed
  have C: "\<forall>x\<in>set (settled fin). \<forall>dx. dist fin x = Some dx \<longrightarrow>
          (\<forall>(y, c)\<in>set (wedges g x). \<exists>dy. dist fin y = Some dy \<and> dy \<le> dx + c)
          \<and> (\<forall>q d. path_cost g q d \<and> hd q = s \<and> last q = x \<longrightarrow> dx \<le> d)"
    using cinv unfolding dij_cost_inv_def by blast
  have I: "\<forall>v. dist fin v \<noteq> None \<longrightarrow> v \<in> set (gverts g)" "\<forall>v\<in>set (settled fin). dist fin v \<noteq> None"
    using inv by (simp_all add: dij_inv_def)
  have res: "dijkstra_path g s t =
      (case dist fin t of None \<Rightarrow> Some (Inl NoPath)
       | Some d \<Rightarrow> map_option (\<lambda>p. Inr (p, d)) (trace_back (length (gverts g)) fin s t []))"
    unfolding dijkstra_path_def fin_def st0_def Let_def ..
  show ?thesis
  proof (cases "dist fin t")
    case None
    have "last q \<noteq> t" if q: "path_cost g q d'" "hd q = s" for q d'
    proof
      assume lt: "last q = t"
      have "s \<in> set (settled fin)" using complete st(1) cinv by (simp add: dij_cost_inv_def)
      moreover have "t \<notin> set (settled fin)" using I(2) None by blast
      ultimately obtain q1 d1 x y c q2 d2 where r: "x \<in> set (settled fin)" "y \<notin> set (settled fin)"
        "(y, c) \<in> set (wedges g x)"
        using path_cost_split [OF q(1), of "set (settled fin)"] q(2) lt by blast
      from I(2) r(1) obtain dx where "dist fin x = Some dx" by blast
      with C r(1,3) obtain dy where "dist fin y = Some dy" by fastforce
      with I(1) complete r(2) show False by blast
    qed
    with res None show ?thesis by (auto simp: dij_spec_def)
  next
    case (Some d)
    have "dijkstra_path g s t \<noteq> None" using dijkstra_path_returns [OF g st] .
    with res Some obtain p where p: "trace_back (length (gverts g)) fin s t [] = Some p" by auto
    have "path_cost g [t] 0" by simp
    from trace_back_cost [OF cinv p Some this] have pc: "path_cost g p d" "hd p = s" "last p = t" by simp_all
    have "t \<in> set (settled fin)" using complete st(2) Some by simp
    with C Some have "\<forall>q d'. path_cost g q d' \<and> hd q = s \<and> last q = t \<longrightarrow> d \<le> d'" by blast
    with pc res Some p show ?thesis by (simp add: dij_spec_def)
  qed
qed

lemma shortest_path_weighted:
  assumes "is_weighted g" and "nonneg_weights g" and "s \<in> set (gverts g)" and "t \<in> set (gverts g)"
  shows "shortest_path g s t = dijkstra_path g s t"
  using assms by (simp add: shortest_path_def)

section \<open>Unweighted graphs\<close>

text \<open>Without weights every edge costs 1, so a weighted walk is a walk and its cost its edge count.\<close>

lemma wedge_step_unit: "(v, c) \<in> set (wedge_step d u (a, b, None)) \<Longrightarrow> c = 1"
  by (auto simp: wedge_step_def Let_def split: if_splits)

lemma wedges_unweighted:
  assumes "graph_inv g" and "\<not> is_weighted g"
  shows "(v, c) \<in> set (wedges g u) \<longleftrightarrow> v \<in> set (adj_list u g) \<and> c = 1"
proof
  assume vc: "(v, c) \<in> set (wedges g u)"
  then obtain e where e: "e \<in> set (gedges g)" "(v, c) \<in> set (wedge_step (is_directed g) u e)" by auto
  obtain a b w where abw: "e = (a, b, w)" by (cases e)
  with e(1) assms have "w = None" by (blast intro: unweighted_no_weights)
  with e(2) abw have "c = 1" by (blast intro: wedge_step_unit)
  with wedges_adj [OF vc] show "v \<in> set (adj_list u g) \<and> c = 1" by simp
next
  assume vc: "v \<in> set (adj_list u g) \<and> c = 1"
  then obtain e where e: "e \<in> set (gedges g)" "v \<in> set (edge_step (is_directed g) u e)"
    by (auto simp: adj_list_def)
  then have "v \<in> fst ` set (wedge_step (is_directed g) u e)"
    by (metis list.set_map wedge_step_fst)
  then obtain c' where c': "(v, c') \<in> set (wedge_step (is_directed g) u e)" by force
  obtain a b w where abw: "e = (a, b, w)" by (cases e)
  with e(1) assms have "w = None" by (blast intro: unweighted_no_weights)
  with c' abw have "c' = 1" by (blast intro: wedge_step_unit)
  with c' e(1) vc show "(v, c) \<in> set (wedges g u)" by auto
qed

lemma path_cost_unweighted:
  assumes "graph_inv g" and "\<not> is_weighted g"
  shows "path_cost g p d \<longleftrightarrow> walk g p \<and> d = of_nat (length p - 1)"
proof (induction p arbitrary: d rule: induct_list012)
  case (3 u v vs)
  have "path_cost g (u # v # vs) d \<longleftrightarrow> v \<in> set (adj_list u g) \<and> path_cost g (v # vs) (d - 1)"
    unfolding path_cost_step wedges_unweighted [OF assms] by simp
  also have "\<dots> \<longleftrightarrow> walk g (u # v # vs) \<and> d = of_nat (length (u # v # vs) - 1)"
    using "3.IH"(2) [of "d - 1"] by (auto simp: algebra_simps)
  finally show ?case .
qed simp_all

lemma nonneg_unweighted: "graph_inv g \<Longrightarrow> \<not> is_weighted g \<Longrightarrow> nonneg_weights g"
  by (auto simp: nonneg_weights_def list_all_iff dest: unweighted_no_weights)

lemma shortest_path_unweighted_dijkstra:
  assumes g: "graph_inv g" "\<not> is_weighted g" and st: "s \<in> set (gverts g)" "t \<in> set (gverts g)"
  shows "map_option (map_sum id snd) (shortest_path g s t) = map_option (map_sum id snd) (dijkstra_path g s t)"
proof -
  have B: "bfs_spec g s t (bfs_path g s t)" using g(1) st(1) by (rule bfs_path_correct)
  have D: "dij_spec g s t (dijkstra_path g s t)"
    using g(1) nonneg_unweighted [OF g] st by (rule dijkstra_path_correct)
  note pc = path_cost_unweighted [OF g]
  have sp: "shortest_path g s t = map_option (map_sum id (\<lambda>p. (p, of_nat (length p - 1)))) (bfs_path g s t)"
    using st g(2) by (rule shortest_path_unweighted)
  show ?thesis
  proof (cases "bfs_path g s t")
    case None
    with B show ?thesis by (simp add: bfs_spec_def)
  next
    case (Some r)
    show ?thesis
    proof (cases r)
      case (Inl e)
      with B Some have e: "e = NoPath" and nw: "\<forall>q. walk g q \<and> hd q = s \<longrightarrow> last q \<noteq> t"
        by (simp_all add: bfs_spec_def)
      have "dijkstra_path g s t = Some (Inl NoPath)"
      proof (cases "dijkstra_path g s t")
        case None
        with D show ?thesis by (simp add: dij_spec_def)
      next
        case (Some r')
        show ?thesis
        proof (cases r')
          case (Inl e')
          with D Some show ?thesis by (simp add: dij_spec_def)
        next
          case (Inr pl)
          with D Some obtain p l where "path_cost g p l" "hd p = s" "last p = t"
            by (auto simp: dij_spec_def split: prod.splits)
          with nw pc show ?thesis by blast
        qed
      qed
      with sp Some Inl e show ?thesis by simp
    next
      case (Inr p)
      with B Some have p: "walk g p" "hd p = s" "last p = t"
        and opt: "\<forall>q. walk g q \<and> hd q = s \<and> last q = t \<longrightarrow> length p \<le> length q"
        by (simp_all add: bfs_spec_def)
      obtain p' l where dres: "dijkstra_path g s t = Some (Inr (p', l))"
        and p': "path_cost g p' l" "hd p' = s" "last p' = t"
        and opt': "\<forall>q d'. path_cost g q d' \<and> hd q = s \<and> last q = t \<longrightarrow> l \<le> d'"
      proof (cases "dijkstra_path g s t")
        case None
        with D show ?thesis by (simp add: dij_spec_def)
      next
        case (Some r')
        show ?thesis
        proof (cases r')
          case (Inl e')
          with D Some have "\<forall>q d'. path_cost g q d' \<and> hd q = s \<longrightarrow> last q \<noteq> t" by (simp add: dij_spec_def)
          with p pc show ?thesis by blast
        next
          case (Inr pl)
          with D Some that show ?thesis by (auto simp: dij_spec_def split: prod.splits)
        qed
      qed
      from p' pc have w': "walk g p'" and l: "l = of_nat (length p' - 1)" by simp_all
      have "length p \<le> length p'" using opt w' p' by blast
      moreover have "l \<le> of_nat (length p - 1)" using opt' p pc by blast
      moreover have "p \<noteq> []" using p(1) by (cases p) simp_all
      moreover have "p' \<noteq> []" using w' by (cases p') simp_all
      ultimately have "of_nat (length p - 1) = l" using l by linarith
      with sp Some Inr dres show ?thesis by simp
    qed
  qed
qed

end
