(* ===== verification/Pipeline.thy ===== *)
theory Pipeline
  imports Session DijkstraOpt
begin

text \<open>
  The client and the engine composed along the page's main use: a batch typed
  in the documented format goes through \<open>handleBatchInsert\<close> into the
  engine, and the path query then runs Dijkstra's search on the resulting
  graph.  \<open>handleFindShortestPath_weighted\<close> is the page-level contract of
  the weighted path query; \<open>format_engine_edges\<close> follows a formatted edge
  through the client's arrays, the JSON encoding and the engine's decoding.
\<close>

lemma handleFindShortestPath_weighted:
  assumes "graph_inv g" and "is_weighted g" and "nonneg_weights g"
    and "url_safe (pathStart c)" and "url_safe (pathEnd c)"
    and "pathStart c \<in> set (gverts g)" and "pathEnd c \<in> set (gverts g)"
  shows "(\<exists>p l. handleFindShortestPath serve (c, g) =
              (c\<lparr>shortestPath := PathList p, shortestPathLength := JsVal l\<rparr>, g)
            \<and> path_cost g p l \<and> hd p = pathStart c \<and> last p = pathEnd c
            \<and> (\<forall>q d. path_cost g q d \<and> hd q = pathStart c \<and> last q = pathEnd c \<longrightarrow> l \<le> d))
         \<or> (handleFindShortestPath serve (c, g) = (c, g)
            \<and> (\<forall>q d. path_cost g q d \<and> hd q = pathStart c \<longrightarrow> last q \<noteq> pathEnd c))"
proof -
  have spec: "dij_spec g (pathStart c) (pathEnd c) (dijkstra_path g (pathStart c) (pathEnd c))"
    using assms(1,3,6,7) by (rule dijkstra_path_correct)
  have h: "handleFindShortestPath serve (c, g) =
           (case dijkstra_path g (pathStart c) (pathEnd c) of
              Some (Inr (p, l)) \<Rightarrow> (c\<lparr>shortestPath := PathList p, shortestPathLength := JsVal l\<rparr>, g)
            | _ \<Rightarrow> (c, g))"
    using assms by (simp add: handleFindShortestPath_serve shortest_path_weighted)
  show ?thesis
  proof (cases "dijkstra_path g (pathStart c) (pathEnd c)")
    case None
    with spec show ?thesis by (simp add: dij_spec_def)
  next
    case (Some r)
    show ?thesis
    proof (cases r)
      case (Inl e)
      with spec Some h show ?thesis by (simp add: dij_spec_def)
    next
      case (Inr pl)
      obtain p l where pl: "pl = (p, l)" by (cases pl)
      with Inr spec Some have w: "path_cost g p l \<and> hd p = pathStart c \<and> last p = pathEnd c
            \<and> (\<forall>q d. path_cost g q d \<and> hd q = pathStart c \<and> last q = pathEnd c \<longrightarrow> l \<le> d)"
        by (simp add: dij_spec_def)
      from pl Inr Some h have "handleFindShortestPath serve (c, g) =
              (c\<lparr>shortestPath := PathList p, shortestPathLength := JsVal l\<rparr>, g)"
        by simp
      with w show ?thesis by blast
    qed
  qed
qed

lemma format_engine_edge:
  "w \<noteq> None \<Longrightarrow>
   (\<lambda>(a, b, w). (a, b, weight_of_wire w)) (wire_of_cedge (cedge_of_format (a, b, w))) = (a, b, map_option of_nat w)"
  by (cases w) simp_all

lemma format_engine_edges:
  "\<forall>(a, b, w)\<in>set es. w \<noteq> None \<Longrightarrow>
   map (\<lambda>(a, b, w). (a, b, weight_of_wire w)) (map wire_of_cedge (map cedge_of_format es)) =
     map (\<lambda>(a, b, w). (a, b, map_option of_nat w)) es"
  by (induction es) (auto simp: format_engine_edge)

lemma fold_edge_endpoints_mono:
  "set vs \<subseteq> set (fold (\<lambda>(a, b, w) vs. list_insert b (list_insert a vs)) es vs)"
proof (induction es arbitrary: vs)
  case Nil
  then show ?case by simp
next
  case (Cons e es)
  obtain a b w where e: "e = (a, b, w)" by (cases e)
  have "set vs \<subseteq> set (list_insert b (list_insert a vs))" by auto
  with Cons.IH [of "list_insert b (list_insert a vs)"] show ?case by (simp add: e)
qed

lemma insert_batch_vertices: "set vs \<subseteq> set (gverts (fst (insert_batch vs es g)))"
proof -
  have "set vs \<subseteq> set (gverts (fold add_vertex vs g))"
    by (induction vs arbitrary: g rule: rev_induct) (auto simp: add_vertex_def)
  moreover have "set (gverts (fold add_vertex vs g)) \<subseteq> set (gverts (fst (insert_batch vs es g)))"
    unfolding insert_batch_def add_edges_graph by (simp add: fold_edge_endpoints_mono)
  ultimately show ?thesis by (rule subset_trans)
qed

lemma nonneg_of_nat_weights:
  "\<forall>(a, b, w)\<in>set (gedges g). w \<in> Some ` range of_nat \<or> w = None \<Longrightarrow> nonneg_weights g"
  by (auto simp: nonneg_weights_def list_all_iff)

lemma insert_batch_mode:
  "is_weighted (fst (insert_batch vs es g)) = is_weighted g \<and> is_directed (fst (insert_batch vs es g)) = is_directed g"
  by (simp add: insert_batch_def add_edges_mode fold_add_vertex_keeps)

lemma batch_path_session:
  "ui_session serve
     [CreateEv (SelectDirected d), CreateEv (SelectWeighted ''yes''), CreateEv SubmitCreate,
      InsertEv (TypeBatch btext), InsertEv ClickBatchInsert,
      QueryEv (TypePathStart s), QueryEv (TypePathEnd t), QueryEv ClickFindPath] g0 =
   (let cg = handleBatchInsert serve
               (init_client\<lparr>directed := (d = ''yes''), weighted := True, graphInfo := (JsVal 0, JsVal 0), batchData := btext\<rparr>,
                reset (d = ''yes'') True)
    in handleFindShortestPath serve ((fst cg)\<lparr>pathStart := s, pathEnd := t\<rparr>, snd cg))"
proof -
  have m: "insertMode init_client = ''batch''" by (simp add: init_client_def)
  obtain c2 g2 where h: "handleBatchInsert serve
      (init_client\<lparr>directed := (d = ''yes''), weighted := True, graphInfo := (JsVal 0, JsVal 0), batchData := btext\<rparr>,
       reset (d = ''yes'') True) = (c2, g2)"
    by (cases "handleBatchInsert serve
      (init_client\<lparr>directed := (d = ''yes''), weighted := True, graphInfo := (JsVal 0, JsVal 0), batchData := btext\<rparr>,
       reset (d = ''yes'') True)")
  show ?thesis unfolding ui_session_create using h m by (simp add: Let_def)
qed

end
