(* ===== verification/EulerCorrect.thy ===== *)
theory EulerCorrect
  imports BfsCorrect Euler
begin

text \<open>
  The connectivity rounds of the Eulerian test compute reachability exactly:
  after \<open>k\<close> rounds that changed the list, the list holds the vertices within
  \<open>k + 1\<close> vertices of the start (\<open>walk_reach\<close> of \<open>BfsCorrect\<close>), a round
  that changes nothing means that no further vertex is reachable, and a round
  that changes the list adds a vertex, so \<open>length (gverts g)\<close> rounds are
  enough.  Hence \<open>weakly_connected\<close> and \<open>strongly_connected\<close> test the
  spec's connectivity conditions on walks.
\<close>

definition reachable_set :: "graph \<Rightarrow> label \<Rightarrow> label set" where
  "reachable_set g s = {v. \<exists>p. walk g p \<and> hd p = s \<and> last p = v}"

lemma reachable_set_walk_reach: "v \<in> reachable_set g s \<longleftrightarrow> (\<exists>m. v \<in> walk_reach g s m)"
  by (auto simp: reachable_set_def walk_reach_def)

lemma reach_round_set:
  "set (fold list_insert (concat (map (\<lambda>v. adj_list v g) vs)) vs) = set vs \<union> nbrs g (set vs)"
  by (auto simp: nbrs_def)

lemma reach_rounds_exact:
  assumes g: "graph_inv g" "s \<in> set (gverts g)"
  shows "distinct vs \<Longrightarrow> set vs = walk_reach g s (Suc k) \<Longrightarrow> length (gverts g) < length vs + n
         \<Longrightarrow> set (reach_rounds n (\<lambda>v. adj_list v g) vs) = reachable_set g s"
proof (induction n arbitrary: vs k)
  case 0
  have "length vs = card (set vs)" using "0.prems"(1) by (simp add: distinct_card)
  also have "\<dots> \<le> card (set (gverts g))"
    using "0.prems"(2) walk_reach_gverts [OF g] by (simp add: card_mono)
  also have "\<dots> \<le> length (gverts g)" by (rule card_length)
  finally show ?case using "0.prems"(3) by simp
next
  case (Suc n)
  define vs' where "vs' = fold list_insert (concat (map (\<lambda>v. adj_list v g) vs)) vs"
  have set': "set vs' = walk_reach g s (Suc (Suc k))"
    using Suc.prems(2) walk_reach_Suc_Suc [of g s k] by (simp add: vs'_def nbrs_def)
  show ?case
  proof (cases "vs' = vs")
    case True
    then have eq: "walk_reach g s (Suc (Suc k)) = walk_reach g s (Suc k)" using set' Suc.prems(2) by simp
    have "reachable_set g s = walk_reach g s (Suc k)"
    proof
      show "reachable_set g s \<subseteq> walk_reach g s (Suc k)"
      proof
        fix v assume "v \<in> reachable_set g s"
        then obtain m where "v \<in> walk_reach g s m" by (auto simp: reachable_set_walk_reach)
        with walk_reach_stable [OF eq, of m] show "v \<in> walk_reach g s (Suc k)" by blast
      qed
      show "walk_reach g s (Suc k) \<subseteq> reachable_set g s"
        by (auto simp: reachable_set_walk_reach)
    qed
    with True Suc.prems(2) show ?thesis by (simp add: vs'_def Let_def)
  next
    case False
    have d': "distinct vs'" using Suc.prems(1) by (simp add: vs'_def)
    obtain ys where ys: "vs' = vs @ ys" unfolding vs'_def using prefix_fold_list_insert by blast
    with False have "length vs < length vs'" by (cases ys) auto
    with Suc.prems(3) have "length (gverts g) < length vs' + n" by simp
    with Suc.IH [OF d' set'] False show ?thesis by (simp add: vs'_def Let_def)
  qed
qed

lemma reachable_from_exact:
  "graph_inv g \<Longrightarrow> s \<in> set (gverts g) \<Longrightarrow> set (reachable_from g s) = reachable_set g s"
  unfolding reachable_from_def by (rule reach_rounds_exact [where k = 0]) simp_all


section \<open>Walks in undirected graphs\<close>

lemma walk_append: "walk g p \<Longrightarrow> walk g q \<Longrightarrow> last p = hd q \<Longrightarrow> walk g (p @ tl q)"
proof (induction g p rule: walk.induct)
  case (1 g)
  then show ?case by simp
next
  case (2 g v)
  then show ?case by (cases q) auto
next
  case (3 g u v vs)
  then show ?case by simp
qed

lemma walk_rev: "\<not> is_directed g \<Longrightarrow> walk g p \<Longrightarrow> walk g (rev p)"
proof (induction g p rule: walk.induct)
  case (1 g)
  then show ?case by simp
next
  case (2 g v)
  then show ?case by simp
next
  case (3 g u v vs)
  then have "walk g (rev (v # vs))" "u \<in> set (adj_list v g)" by (simp_all add: adj_list_symmetric)
  then show ?case using walk_snoc [of "rev (v # vs)" g u] by simp
qed

lemma reachable_set_trans:
  "w \<in> reachable_set g v \<Longrightarrow> x \<in> reachable_set g w \<Longrightarrow> x \<in> reachable_set g v"
proof -
  assume "w \<in> reachable_set g v" "x \<in> reachable_set g w"
  then obtain p q where p: "walk g p" "hd p = v" "last p = w" and q: "walk g q" "hd q = w" "last q = x"
    by (auto simp: reachable_set_def)
  have "p \<noteq> []" "q \<noteq> []" using p(1) q(1) by (cases p, simp_all, cases q, simp_all)
  have "walk g (p @ tl q)" using p q by (simp add: walk_append)
  moreover have "hd (p @ tl q) = v" using p(2) \<open>p \<noteq> []\<close> by simp
  moreover have "last (p @ tl q) = x"
    using p(3) q(2,3) \<open>q \<noteq> []\<close> by (cases q) (auto simp: last_append)
  ultimately show ?thesis by (auto simp: reachable_set_def)
qed

lemma reachable_set_sym:
  "\<not> is_directed g \<Longrightarrow> w \<in> reachable_set g v \<Longrightarrow> v \<in> reachable_set g w"
proof -
  assume u: "\<not> is_directed g" and "w \<in> reachable_set g v"
  then obtain p where p: "walk g p" "hd p = v" "last p = w" by (auto simp: reachable_set_def)
  then have "p \<noteq> []" by (cases p) simp_all
  with u p have "walk g (rev p) \<and> hd (rev p) = w \<and> last (rev p) = v"
    by (simp add: walk_rev hd_rev last_rev)
  then show ?thesis by (auto simp: reachable_set_def)
qed

lemma reachable_set_self: "v \<in> reachable_set g v"
proof -
  have "walk g [v] \<and> hd [v] = v \<and> last [v] = v" by simp
  then show ?thesis unfolding reachable_set_def by blast
qed

section \<open>The connectivity tests\<close>

lemma graph_inv_undirected [simp]: "graph_inv (g\<lparr>is_directed := d\<rparr>) = graph_inv g"
  by (simp add: graph_inv_def)

lemma active_gverts: "set (active g) \<subseteq> set (gverts g)"
  by (auto simp: active_def)

lemma active_reach_walks:
  assumes "graph_inv g'" and "gverts g' = gverts g"
  shows "active_reach g g' \<longleftrightarrow>
           (case active g of [] \<Rightarrow> True | a # _ \<Rightarrow> set (active g) \<subseteq> reachable_set g' a)"
proof (cases "active g")
  case Nil
  then show ?thesis by (simp add: active_reach_def)
next
  case (Cons a as)
  then have "a \<in> set (gverts g')" using active_gverts [of g] assms(2) by auto
  with Cons assms(1) show ?thesis by (simp add: active_reach_def reachable_from_exact)
qed

lemma weakly_connected_walks:
  assumes "graph_inv g"
  shows "weakly_connected g \<longleftrightarrow>
           (\<forall>v\<in>set (active g). \<forall>w\<in>set (active g). w \<in> reachable_set (g\<lparr>is_directed := False\<rparr>) v)"
proof -
  let ?u = "g\<lparr>is_directed := False\<rparr>"
  have wc: "weakly_connected g \<longleftrightarrow> (case active g of [] \<Rightarrow> True | a # _ \<Rightarrow> set (active g) \<subseteq> reachable_set ?u a)"
    unfolding weakly_connected_def using assms by (intro active_reach_walks) simp_all
  show ?thesis
  proof (cases "active g")
    case Nil
    with wc show ?thesis by simp
  next
    case (Cons a as)
    have "(\<forall>v\<in>set (active g). \<forall>w\<in>set (active g). w \<in> reachable_set ?u v) \<longleftrightarrow> set (active g) \<subseteq> reachable_set ?u a"
    proof
      assume "\<forall>v\<in>set (active g). \<forall>w\<in>set (active g). w \<in> reachable_set ?u v"
      with Cons show "set (active g) \<subseteq> reachable_set ?u a" by auto
    next
      assume all: "set (active g) \<subseteq> reachable_set ?u a"
      show "\<forall>v\<in>set (active g). \<forall>w\<in>set (active g). w \<in> reachable_set ?u v"
      proof (intro ballI)
        fix v w assume "v \<in> set (active g)" "w \<in> set (active g)"
        with all have va: "v \<in> reachable_set ?u a" and wa: "w \<in> reachable_set ?u a" by auto
        have "\<not> is_directed ?u" by simp
        from reachable_set_sym [OF this va] have "a \<in> reachable_set ?u v" .
        from reachable_set_trans [OF this wa] show "w \<in> reachable_set ?u v" .
      qed
    qed
    with wc Cons show ?thesis by simp
  qed
qed


section \<open>Strong connectivity\<close>

lemma edge_step_reverse:
  "v \<in> set (edge_step d u (b, a, w)) \<longleftrightarrow> u \<in> set (edge_step d v (a, b, w))"
  by (cases "a = v"; cases "b = u"; cases "a = u"; cases "b = v"; cases d) (simp_all add: edge_step_eq)

lemma adj_list_reverse:
  "v \<in> set (adj_list u (reverse_graph g)) \<longleftrightarrow> u \<in> set (adj_list v g)"
proof
  assume "v \<in> set (adj_list u (reverse_graph g))"
  then obtain e where e: "e \<in> set (gedges g)"
    and v: "v \<in> set (edge_step (is_directed g) u (case e of (a, b, w) \<Rightarrow> (b, a, w)))"
    by (auto simp: adj_list_def reverse_graph_def)
  obtain a b w where abw: "e = (a, b, w)" by (cases e)
  with v have "u \<in> set (edge_step (is_directed g) v e)" by (simp add: edge_step_reverse)
  with e show "u \<in> set (adj_list v g)" by (auto simp: adj_list_def)
next
  assume "u \<in> set (adj_list v g)"
  then obtain e where e: "e \<in> set (gedges g)" and u: "u \<in> set (edge_step (is_directed g) v e)"
    by (auto simp: adj_list_def)
  obtain a b w where abw: "e = (a, b, w)" by (cases e)
  with u have v: "v \<in> set (edge_step (is_directed (reverse_graph g)) u (b, a, w))"
    by (simp add: edge_step_reverse reverse_graph_def)
  have "(b, a, w) \<in> set (gedges (reverse_graph g))"
    using e abw by (force simp: reverse_graph_def)
  with v show "v \<in> set (adj_list u (reverse_graph g))" by (auto simp: adj_list_def)
qed

lemma walk_reverse: "walk (reverse_graph g) p \<longleftrightarrow> walk g (rev p)"
proof (induction p rule: induct_list012)
  case 1
  then show ?case by simp
next
  case (2 v)
  then show ?case by simp
next
  case (3 u v vs)
  have "walk g (rev vs @ [v] @ [u]) \<longleftrightarrow> walk g (rev vs @ [v]) \<and> u \<in> set (adj_list v g)"
    using walk_snoc [of "rev vs @ [v]" g u] by simp
  then show ?case using 3(2) by (auto simp: adj_list_reverse)
qed

lemma reachable_set_reverse: "v \<in> reachable_set (reverse_graph g) a \<longleftrightarrow> a \<in> reachable_set g v"
proof
  assume "v \<in> reachable_set (reverse_graph g) a"
  then obtain p where p: "walk (reverse_graph g) p" "hd p = a" "last p = v" by (auto simp: reachable_set_def)
  then have "p \<noteq> []" by (cases p) simp_all
  with p have "walk g (rev p) \<and> hd (rev p) = v \<and> last (rev p) = a" by (simp add: walk_reverse hd_rev last_rev)
  then show "a \<in> reachable_set g v" by (auto simp: reachable_set_def)
next
  assume "a \<in> reachable_set g v"
  then obtain p where p: "walk g p" "hd p = v" "last p = a" by (auto simp: reachable_set_def)
  then have "p \<noteq> []" by (cases p) simp_all
  with p have "walk (reverse_graph g) (rev p) \<and> hd (rev p) = a \<and> last (rev p) = v"
    by (simp add: walk_reverse hd_rev last_rev)
  then show "v \<in> reachable_set (reverse_graph g) a" by (auto simp: reachable_set_def)
qed

lemma graph_inv_reverse: "graph_inv g \<Longrightarrow> graph_inv (reverse_graph g)"
  by (auto simp: graph_inv_def reverse_graph_def)

lemma strongly_connected_walks:
  assumes "graph_inv g"
  shows "strongly_connected g \<longleftrightarrow>
           (\<forall>v\<in>set (active g). \<forall>w\<in>set (active g). w \<in> reachable_set g v)"
proof (cases "active g")
  case Nil
  then show ?thesis by (simp add: strongly_connected_def active_reach_def)
next
  case (Cons a as)
  have fw: "active_reach g g \<longleftrightarrow> set (active g) \<subseteq> reachable_set g a"
    using active_reach_walks [OF assms refl] Cons by simp
  have "gverts (reverse_graph g) = gverts g" by (simp add: reverse_graph_def)
  from active_reach_walks [OF graph_inv_reverse [OF assms] this] Cons
  have "active_reach g (reverse_graph g) \<longleftrightarrow> set (active g) \<subseteq> reachable_set (reverse_graph g) a"
    by simp
  also have "\<dots> \<longleftrightarrow> (\<forall>v\<in>set (active g). a \<in> reachable_set g v)"
    by (auto simp only: subset_iff reachable_set_reverse)
  finally have bw: "active_reach g (reverse_graph g) \<longleftrightarrow> (\<forall>v\<in>set (active g). a \<in> reachable_set g v)" .
  have a: "a \<in> set (active g)" using Cons by simp
  show ?thesis
  proof
    assume "strongly_connected g"
    then have f: "set (active g) \<subseteq> reachable_set g a" and b: "\<forall>v\<in>set (active g). a \<in> reachable_set g v"
      unfolding strongly_connected_def fw bw by auto
    show "\<forall>v\<in>set (active g). \<forall>w\<in>set (active g). w \<in> reachable_set g v"
    proof (intro ballI)
      fix v w assume "v \<in> set (active g)" "w \<in> set (active g)"
      with f b have "a \<in> reachable_set g v" "w \<in> reachable_set g a" by auto
      then show "w \<in> reachable_set g v" by (rule reachable_set_trans)
    qed
  next
    assume all: "\<forall>v\<in>set (active g). \<forall>w\<in>set (active g). w \<in> reachable_set g v"
    with a have "set (active g) \<subseteq> reachable_set g a" "\<forall>v\<in>set (active g). a \<in> reachable_set g v"
      by auto
    then show "strongly_connected g" unfolding strongly_connected_def fw bw by simp
  qed
qed

lemma undirected_self: "\<not> is_directed g \<Longrightarrow> g\<lparr>is_directed := False\<rparr> = g"
  by simp

lemma eulerian_circuit_walks:
  assumes "graph_inv g"
  shows "eulerian g = EulerCircuit \<longleftrightarrow>
     gedges g = [] \<or>
     ((\<forall>v\<in>set (active g). \<forall>w\<in>set (active g). w \<in> reachable_set g v) \<and>
      (\<forall>v\<in>set (gverts g). if is_directed g then out_degree v g = in_degree v g
                           else even (out_degree v g + in_degree v g)))"
proof (cases "is_directed g")
  case True
  then show ?thesis
    by (simp add: eulerian_def Let_def strongly_connected_walks [OF assms] filter_empty_conv)
next
  case False
  then show ?thesis
    by (simp add: eulerian_def Let_def weakly_connected_walks [OF assms] undirected_self filter_empty_conv)
qed

lemma eulerian_path_walks_undirected:
  assumes "graph_inv g" and "\<not> is_directed g"
  shows "eulerian g = EulerPath \<longleftrightarrow>
     gedges g \<noteq> [] \<and> (\<forall>v\<in>set (active g). \<forall>w\<in>set (active g). w \<in> reachable_set g v) \<and>
     length (filter (\<lambda>v. odd (out_degree v g + in_degree v g)) (gverts g)) = 2"
  using assms(2) by (auto simp: eulerian_def Let_def weakly_connected_walks [OF assms(1)] undirected_self)

lemma eulerian_path_walks_directed:
  assumes "graph_inv g" and "is_directed g"
  shows "eulerian g = EulerPath \<longleftrightarrow>
     gedges g \<noteq> [] \<and>
     \<not> ((\<forall>v\<in>set (active g). \<forall>w\<in>set (active g). w \<in> reachable_set g v) \<and>
        (\<forall>v\<in>set (gverts g). out_degree v g = in_degree v g)) \<and>
     length (filter (\<lambda>v. out_degree v g = in_degree v g + 1) (gverts g)) \<le> 1 \<and>
     length (filter (\<lambda>v. in_degree v g = out_degree v g + 1) (gverts g)) \<le> 1 \<and>
     length (filter (\<lambda>v. out_degree v g \<noteq> in_degree v g) (gverts g)) =
       length (filter (\<lambda>v. out_degree v g = in_degree v g + 1) (gverts g)) +
       length (filter (\<lambda>v. in_degree v g = out_degree v g + 1) (gverts g)) \<and>
     (\<forall>v\<in>set (active g). \<forall>w\<in>set (active g). w \<in> reachable_set (g\<lparr>is_directed := False\<rparr>) v)"
  using assms(2)
  by (simp add: eulerian_def Let_def strongly_connected_walks [OF assms(1)] weakly_connected_walks [OF assms(1)]
        filter_empty_conv)

end
