(* ===== verification/Spec2Isabelle.thy ===== *)
theory Spec2Isabelle
  imports Session Display Network AsyncEngine Pipeline EulerCorrect
begin

text \<open>
  \<^bold>\<open>A verification library for Gerador-de-Grafos.\<close>

  The repository is a graph builder: a React client (\<open>src/src/App.js\<close>, the
  only source file) that renders forms, parses edge lists typed into a text box
  or read from a file, and sends requests to a graph engine at
  \<open>http://127.0.0.1:5000\<close>.  The engine (spec.md: Graph Store, Mutation
  Operations, Query Algorithms, Request Handler) is not in the repository; it
  is modelled from the spec (the spec-modelled parts are named below).  The
  two meet at the request interface of spec section 6, which the development fixes as a
  datatype of requests and replies.

  \<^bold>\<open>Theories.\<close>
  \<^item> \<open>Prelude\<close>: label type, insertion-ordered set insertion
    (\<open>list_insert\<close>, JavaScript's \<open>Set.add\<close>) and its equality with the
    first-occurrence reference \<open>rev (remdups (rev xs))\<close>, sums over lists;
    the collections \<open>js_simps\<close> and \<open>graph_simps\<close>.
  \<^item> \<open>JsString\<close>: the JavaScript built-ins the client's parsing uses:
    \<open>split\<close> with a one-character separator, \<open>trim\<close>, \<open>parseFloat\<close>
    (numbers as exact decimals, \<open>jsnum\<close>), \<open>join\<close> and \<open>toString\<close> on
    naturals.  Lemmas: split/join round trip, trim leaves no outer whitespace,
    \<open>parseFloat\<close> reads back printed naturals.
  \<^item> \<open>BatchParser\<close>: \<open>handleBatchInsert\<close>'s and \<open>handleFileUpload\<close>'s
    line parsing (App.js 82--99, 148--166): \<open>batch_line\<close>,
    \<open>add_lines\<close>, \<open>batch_items\<close>, \<open>file_items\<close>.
  \<^item> \<open>GraphStore\<close> (spec-modelled): the engine's graph record, \<open>reset\<close>,
    \<open>add_vertex\<close>, \<open>add_edge\<close> (with \<open>InvalidWeight\<close>),
    \<open>insert_batch\<close> (best effort), \<open>neighbors\<close>, \<open>are_adjacent\<close>,
    \<open>degree\<close>, the invariant \<open>graph_inv\<close> and its preservation, symmetry of
    undirected adjacency, the degree sum.
  \<^item> \<open>Paths\<close> (spec-modelled): BFS and Dijkstra with deterministic
    tie-breaking, on fuel; \<open>shortest_path\<close>.
  \<^item> \<open>BfsCorrect\<close>: walks, the round invariant of BFS, and its contract
    \<open>bfs_spec\<close> (returns; a returned path is a shortest walk; \<open>NoPath\<close>
    means unreachable).
  \<^item> \<open>DijkstraCorrect\<close>: the loop invariant of Dijkstra's search and the
    totality of the shortest-path query.
  \<^item> \<open>DijkstraOpt\<close>: weighted walks (\<open>path_cost\<close>), a second loop
    invariant (distances are costs of predecessor walks, settled vertices
    are reached by no cheaper walk), and the contract \<open>dij_spec\<close>: the
    returned path is a cheapest walk with its cost, \<open>NoPath\<close> means
    unreachable.
  \<^item> \<open>Euler\<close> (spec-modelled): connectivity by rounds of reachability and
    the Eulerian test.
  \<^item> \<open>EulerCorrect\<close>: the rounds of reachability compute exactly the set
    of vertices reachable by walks; weak and strong connectivity of the
    Eulerian test are walk connectivity of the undirected graph and of the
    graph itself (through the reversed graph).
  \<^item> \<open>Protocol\<close>: requests, replies, the interface type \<open>'s server\<close>, and
    the JSON encoding of the client's edge arrays.
  \<^item> \<open>Server\<close> (spec-modelled): the browser's URL preprocessing, query-string
    decoding and the dispatch \<open>serve :: graph server\<close>, which keeps
    \<open>graph_inv\<close>; the decoding round trip for URL-safe labels.
  \<^item> \<open>Client\<close>: the component's state record (App.js 26--58), the request
    URLs, and every handler (\<open>handleGraphCreation\<close>, \<open>handleBatchInsert\<close>,
    \<open>handleFileUpload\<close>, \<open>handleAddVertex\<close>, \<open>handleAddEdge\<close>, the
    query handlers and \<open>fetchGraphInfo\<close>), over any server.
  \<^item> \<open>UI\<close>: the event wiring of the rendered forms (App.js 305--811) as a
    step function over UI events, sessions as runs, and the lemma that an
    invariant every server request keeps is kept by every session, for any
    server.
  \<^item> \<open>View\<close>: the rendered texts and the vis-network node and edge arrays.
  \<^item> \<open>System\<close>: the handlers run against \<open>serve\<close>.
  \<^item> \<open>Session\<close>: the refinement relation \<open>view_sync\<close> between the page's
    lists and the engine's graph, kept by every UI event.
  \<^item> \<open>Display\<close>: rendering of the engine's replies.
  \<^item> \<open>Pipeline\<close>: the client and the engine composed along the
    page's main use: the page-level contract of the weighted path query, a
    formatted batch followed through the client's arrays, the JSON encoding
    and the engine's decoding, and the session that creates, inserts and
    queries.
  \<^item> \<open>Async\<close>: the insert handlers split at their \<open>await\<close>: the click
    sends the request, the continuation (\<open>cont\<close>, \<open>resume\<close>) runs when
    the reply is delivered, replies wait in \<open>inflight\<close> and may be
    delivered in any order (\<open>astep\<close>, \<open>arun\<close>); the engine answers in
    the order requests are sent.  Delivered at once, the split handlers end in
    the state of the synchronous ones (\<open>async_refines_sync\<close>), which ties
    the two models together.
  \<^item> \<open>AsyncEngine\<close>: what a click sends to \<open>serve\<close> and what delivering
    each kind of reply does, step by step.
  \<^item> \<open>Network\<close>: the drawing effect (App.js 276--303) under React's
    dependency comparison by object identity, pages as client, server and
    network state, the mount and the render after each event, and the
    inductive set \<open>page_reach\<close> of pages a session reaches with its
    invariant \<open>net_inv\<close> (rule induction).
  \<^item> this theory: the properties that span client and engine, C1--C35:
    the batch, upload and single-insert handlers against the engine (C1--C6,
    with the divergences they show), the batch text format (C7, C8), the
    session refinement and its recovery (C9, C20, C21), the request URLs
    (C10, C11), the queries through the page (C12--C17, C22), the parser's
    equivalence with a reference (C18), the bounds of the vis-network ids
    (C19), what the page displays (C23, C24), the Eulerian answer and the
    weighted path answer characterised by walks (C25--C27, C32), the
    agreement of BFS with Dijkstra on unweighted graphs (C28), the drawing of
    the graph (C29--C31), the end-to-end session from a typed batch to a
    cheapest path (C33), and replies of the asynchronous insert handlers
    arriving out of order: crossed add-edge replies keep both edges (C34),
    crossed batch replies leave stale lists (C35).

  \<^bold>\<open>Bounds and fuel.\<close> BFS runs on fuel \<open>length (gverts g) + 1\<close>:
    the visited list, which stays inside the vertex list without repetition,
    grows in every round whose frontier is not empty, so the fuel is enough
    (\<open>bfs_path_correct\<close>).  Dijkstra's loop runs at most
    \<open>length (gverts g)\<close> rounds, each settling a new vertex, and the path
    reconstruction follows predecessors that were settled strictly earlier, so
    \<open>length (gverts g)\<close> steps are enough (\<open>dijkstra_path_returns\<close>); the
    query is therefore total (C17).  The reachability rounds of the Eulerian
    test run on fuel \<open>length (gverts g)\<close> and stop early at a fixpoint;
    every round that does not stop adds a vertex, so the fuel is enough and
    the result is the reachable set (\<open>reachable_from_exact\<close>).

  \<^bold>\<open>Not modelled.\<close> The rendering by MUI and vis-network (layout only),
  \<open>console\<close> and \<open>alert\<close> output, the network transport beyond the request
  and reply values, concurrency beyond the insert handlers (\<open>Async\<close> splits
  the batch, add-vertex and add-edge handlers at their \<open>await\<close>; the query
  handlers, the creation form and the file upload run as one step each, and
  requests reach the engine in the order they are sent, so the engine's lock
  is not modelled), binary64 rounding of numbers (exact decimals
  instead), and UTF-16 code units above 255 (\<open>char\<close> is a byte).
\<close>

text \<open>
  C1. After \<open>handleBatchInsert\<close> against the engine, the client's vertex and
  edge lists are exactly the engine's lists (the authoritative view of spec
  section 4.2), whatever the batch text and the prior states.
\<close>

theorem batch_insert_view_authoritative:
  "let (c', g') = handleBatchInsert serve (c, g)
   in vertices c' = gverts g' \<and> edges c' = map (\<lambda>e. cedge_of_wire (wire_of_gedge e)) (gedges g')"
  by (simp add: handleBatchInsert_def serve_InsertBatch fetchGraphInfo_serve Let_def split: prod.splits)

text \<open>
  C2. \<open>handleFileUpload\<close> merges the file into the client's current edge
  list and sends the whole list as a batch, so every edge the engine already
  holds is inserted a second time: when the client's edges mirror the engine's,
  the engine ends with its old edges twice, followed by the file's edges whose
  weight fits the mode.
\<close>

theorem file_upload_resends_edges:
  assumes inv: "graph_inv g"
    and synced: "edges c = map (\<lambda>e. cedge_of_wire (wire_of_gedge e)) (gedges g)"
    and sel: "selectedFile c = Some content"
  shows "gedges (snd (handleFileUpload serve (c, g))) =
           gedges g @ gedges g @
           filter (\<lambda>(a, b, w). weight_ok (is_weighted g) w)
             (map (\<lambda>(a, b, w). (a, b, weight_of_wire w)) (map wire_of_cedge (snd (batch_items content))))"
proof -
  obtain nv ne where fi: "file_items (vertices c) (edges c) content = (nv, ne)" by (cases "file_items (vertices c) (edges c) content")
  have ne: "ne = edges c @ snd (batch_items content)" using fi file_items_edges[of "vertices c" "edges c" content] by simp
  have "snd (handleFileUpload serve (c, g)) =
          fst (insert_batch nv (map (\<lambda>(a, b, w). (a, b, weight_of_wire w)) (map wire_of_cedge ne)) g)"
    using sel fi by (simp add: handleFileUpload_def serve_InsertBatch Let_def split: reply.splits)
  moreover have "map (\<lambda>(a, b, w). (a, b, weight_of_wire w)) (map wire_of_cedge ne) =
                   gedges g @ map (\<lambda>(a, b, w). (a, b, weight_of_wire w)) (map wire_of_cedge (snd (batch_items content)))"
    using ne synced decode_wire_views[of "gedges g"] by simp
  ultimately show ?thesis
    using inv by (simp add: insert_batch_edges graph_inv_filter_ok)
qed

theorem file_upload_resends_edges_witness:
  "graph_inv \<lparr>is_directed = False, is_weighted = False, gverts = [''A'', ''B''], gedges = [(''A'', ''B'', None)]\<rparr>
   \<and> gedges (snd (handleFileUpload serve
        (init_client\<lparr>edges := [Edge2 ''A'' ''B''], selectedFile := Some []\<rparr>,
         \<lparr>is_directed = False, is_weighted = False, gverts = [''A'', ''B''], gedges = [(''A'', ''B'', None)]\<rparr>)))
     = [(''A'', ''B'', None), (''A'', ''B'', None)]"
proof -
  let ?g = "\<lparr>is_directed = False, is_weighted = False, gverts = [''A'', ''B''], gedges = [(''A'', ''B'', None)]\<rparr>"
  let ?c = "init_client\<lparr>edges := [Edge2 ''A'' ''B''], selectedFile := Some []\<rparr>"
  have inv: "graph_inv ?g" by (simp add: graph_inv_def weight_ok_def)
  have "gedges (snd (handleFileUpload serve (?c, ?g))) =
          gedges ?g @ gedges ?g @ filter (\<lambda>(a, b, w). weight_ok (is_weighted ?g) w)
             (map (\<lambda>(a, b, w). (a, b, weight_of_wire w)) (map wire_of_cedge (snd (batch_items []))))"
    by (rule file_upload_resends_edges) (simp_all add: inv init_client_def)
  also have "\<dots> = [(''A'', ''B'', None), (''A'', ''B'', None)]"
    by (simp add: batch_items_def batch_line_def js_trim_def)
  finally show ?thesis using inv by simp
qed

text \<open>
  C3. \<open>handleAddVertex\<close> appends the typed label to the client's vertex list on every successful reply, while the engine's \<open>addVertex\<close> is idempotent: adding a label the engine already has leaves the engine unchanged and duplicates the label in the client's list.
\<close>

theorem add_existing_vertex_diverges:
  assumes "newVertex c \<in> set (gverts g)"
  shows "handleAddVertex serve (c, g) = (c\<lparr>vertices := vertices c @ [newVertex c], newVertex := []\<rparr>, g)"
  using assms by (simp add: handleAddVertex_serve add_vertex_def)

theorem add_existing_vertex_diverges_witness:
  "''A'' \<in> set (gverts (add_vertex ''A'' (reset False False)))
   \<and> handleAddVertex serve (init_client\<lparr>vertices := [''A''], newVertex := ''A''\<rparr>, add_vertex ''A'' (reset False False))
     = (init_client\<lparr>vertices := [''A'', ''A'']\<rparr>, add_vertex ''A'' (reset False False))"
proof -
  have h: "newVertex (init_client\<lparr>vertices := [''A''], newVertex := ''A''\<rparr>) \<in> set (gverts (add_vertex ''A'' (reset False False)))"
    by (simp add: add_vertex_def reset_def)
  show ?thesis
    using add_existing_vertex_diverges[OF h] by (simp add: add_vertex_def reset_def init_client_def)
qed

text \<open>
  C4. On success, \<open>handleAddEdge\<close> appends the edge array \<open>[start, end, undefined]\<close> to the client's edges but leaves its vertex list alone, while the engine inserts both endpoints and the edge (unweighted graph and unweighted radio).
\<close>

theorem add_edge_endpoints_not_mirrored:
  assumes "\<not> weighted c" and "\<not> is_weighted g"
  shows "handleAddEdge serve (c, g) =
           (c\<lparr>edges := edges c @ [Edge3 (startVertex c) (endVertex c) JUndefined],
              startVertex := [], endVertex := [], weight := []\<rparr>,
            g\<lparr>gverts := list_insert (endVertex c) (list_insert (startVertex c) (gverts g)),
              gedges := gedges g @ [(startVertex c, endVertex c, None)]\<rparr>)"
  using assms by (simp add: handleAddEdge_serve add_edge_accepted weight_ok_def)

theorem add_edge_endpoints_not_mirrored_witness:
  "\<not> weighted (init_client\<lparr>startVertex := ''A'', endVertex := ''B''\<rparr>) \<and> \<not> is_weighted (reset False False)
   \<and> handleAddEdge serve (init_client\<lparr>startVertex := ''A'', endVertex := ''B''\<rparr>, reset False False)
     = (init_client\<lparr>edges := [Edge3 ''A'' ''B'' JUndefined]\<rparr>,
        \<lparr>is_directed = False, is_weighted = False, gverts = [''A'', ''B''], gedges = [(''A'', ''B'', None)]\<rparr>)"
proof -
  have h1: "\<not> weighted (init_client\<lparr>startVertex := ''A'', endVertex := ''B''\<rparr>)" by (simp add: init_client_def)
  have h2: "\<not> is_weighted (reset False False)" by (simp add: reset_def)
  show ?thesis
    using add_edge_endpoints_not_mirrored[OF h1 h2] h1 h2 by (simp add: init_client_def reset_def)
qed

text \<open>
  C5. Hence an edge added singly from a label the client's vertex list lacks is handed to vis-network with \<open>from = -1\<close> (\<open>vertices.indexOf\<close> fails, App.js line 279), although the engine now has that vertex.
\<close>

theorem add_edge_draws_dangling_edge:
  assumes "\<not> weighted c" and "\<not> is_weighted g" and "startVertex c \<notin> set (vertices c)"
  shows "let (c', g') = handleAddEdge serve (c, g)
         in startVertex c \<in> set (gverts g') \<and> from_id (last (snd (vis_graph c'))) = -1"
  using assms by (simp add: add_edge_endpoints_not_mirrored vis_graph_def vis_edge_of_def js_index_of_notin)

theorem add_edge_draws_dangling_edge_witness:
  "\<not> weighted (init_client\<lparr>startVertex := ''A'', endVertex := ''B''\<rparr>) \<and> \<not> is_weighted (reset False False)
   \<and> ''A'' \<notin> set (vertices (init_client\<lparr>startVertex := ''A'', endVertex := ''B''\<rparr>))
   \<and> from_id (last (snd (vis_graph (fst (handleAddEdge serve (init_client\<lparr>startVertex := ''A'', endVertex := ''B''\<rparr>, reset False False)))))) = -1"
proof -
  have h1: "\<not> weighted (init_client\<lparr>startVertex := ''A'', endVertex := ''B''\<rparr>)" by (simp add: init_client_def)
  have h2: "\<not> is_weighted (reset False False)" by (simp add: reset_def)
  have h3: "startVertex (init_client\<lparr>startVertex := ''A'', endVertex := ''B''\<rparr>) \<notin> set (vertices (init_client\<lparr>startVertex := ''A'', endVertex := ''B''\<rparr>))"
    by (simp add: init_client_def)
  have "let (c', g') = handleAddEdge serve (init_client\<lparr>startVertex := ''A'', endVertex := ''B''\<rparr>, reset False False)
        in startVertex (init_client\<lparr>startVertex := ''A'', endVertex := ''B''\<rparr>) \<in> set (gverts g')
           \<and> from_id (last (snd (vis_graph c'))) = -1"
    by (rule add_edge_draws_dangling_edge[OF h1 h2 h3])
  then have "from_id (last (snd (vis_graph (fst (handleAddEdge serve
               (init_client\<lparr>startVertex := ''A'', endVertex := ''B''\<rparr>, reset False False)))))) = -1"
    by (simp only: Let_def split_beta)
  with h1 h2 h3 show ?thesis by simp
qed

text \<open>
  C6. Mode violation (spec section 8): with the weighted radio set and a numeric weight typed, adding an edge to an unweighted graph is refused by the engine with \<open>InvalidWeight\<close>, and neither the client nor the engine changes.
\<close>

theorem add_edge_mode_mismatch_rejected:
  assumes "weighted c" and "\<not> is_weighted g" and "parse_float (weight c) = Fin r"
  shows "handleAddEdge serve (c, g) = (c, g)"
  using assms by (simp add: handleAddEdge_serve add_edge_def weight_ok_def)

theorem add_edge_mode_mismatch_rejected_witness:
  "weighted (init_client\<lparr>weighted := True, weight := ''3''\<rparr>) \<and> \<not> is_weighted (reset False False)
   \<and> parse_float (weight (init_client\<lparr>weighted := True, weight := ''3''\<rparr>)) = Fin 3
   \<and> handleAddEdge serve (init_client\<lparr>weighted := True, weight := ''3''\<rparr>, reset False False)
     = (init_client\<lparr>weighted := True, weight := ''3''\<rparr>, reset False False)"
proof -
  have p: "parse_float ''3'' = Fin 3" by (simp add: js_simps)
  have h1: "weighted (init_client\<lparr>weighted := True, weight := ''3''\<rparr>)" by simp
  have h2: "\<not> is_weighted (reset False False)" by (simp add: reset_def)
  have h3: "parse_float (weight (init_client\<lparr>weighted := True, weight := ''3''\<rparr>)) = Fin 3" using p by simp
  show ?thesis using add_edge_mode_mismatch_rejected[OF h1 h2 h3] h1 h2 h3 by simp
qed

text \<open>
  C7. Round trip of the batch format: text written in the format the text box
  asks for (one edge per line, labels without whitespace, weights as decimal
  digits of a whole number below \<open>2^53\<close>) is parsed back into exactly the
  intended edge arrays, in order.  Below \<open>2^53\<close> every whole number is a
  binary64 value, so JavaScript's \<open>parseFloat\<close> returns it exactly, as the
  model's exact reading does; larger weights would be rounded.
\<close>

theorem batch_text_roundtrip:
  assumes "es \<noteq> []" and "\<forall>(a, b, w)\<in>set es. no_ws a \<and> no_ws b \<and> (\<forall>n. w = Some n \<longrightarrow> n < 2 ^ 53)"
  shows "snd (batch_items (js_join CHR ''\<newline>'' (map format_line es))) = map cedge_of_format es"
  using assms by (intro batch_items_format) auto

theorem batch_text_roundtrip_witness:
  "snd (batch_items (js_join CHR ''\<newline>'' (map format_line [(''A'', ''B'', Some 3), (''B'', ''C'', None)])))
   = [Edge3 ''A'' ''B'' (JNumber (Fin 3)), Edge2 ''B'' ''C'']"
proof -
  have h: "\<forall>(a, b, w)\<in>set [(''A'', ''B'', Some (3::nat)), (''B'', ''C'', None)].
             no_ws a \<and> no_ws b \<and> (\<forall>n. w = Some n \<longrightarrow> n < 2 ^ 53)"
    by (simp add: no_ws_def js_ws_def)
  show ?thesis using batch_text_roundtrip [OF _ h] by simp
qed

text \<open>
  C8. A line with two spaces between its labels (App.js line 87 splits at
  every single space) becomes an edge from the first label to the empty label,
  with the second label read as its weight by \<open>parseFloat\<close>.
\<close>

theorem batch_double_space:
  assumes "no_ws a" and "no_ws b"
  shows "batch_line (a @ CHR '' '' # CHR '' '' # b) = Some (Edge3 a [] (JNumber (parse_float b)))"
proof -
  have t: "js_trim (a @ CHR '' '' # CHR '' '' # b) = a @ CHR '' '' # CHR '' '' # b"
    using assms by (intro js_trim_id) (auto simp: no_ws_def js_ws_def)
  have s: "js_split CHR '' '' (a @ CHR '' '' # CHR '' '' # b) = [a, [], b]"
    using assms by (simp add: js_split_append_sep js_split_no_sep no_ws_space)
  show ?thesis by (simp add: batch_line_def t s)
qed

theorem batch_double_space_witness:
  "batch_line ''A  B'' = Some (Edge3 ''A'' [] (JNumber NaN))"
proof -
  have "batch_line (''A'' @ CHR '' '' # CHR '' '' # ''B'') = Some (Edge3 ''A'' [] (JNumber (parse_float ''B'')))"
    by (rule batch_double_space) (simp_all add: no_ws_def js_ws_def)
  moreover have "parse_float ''B'' = NaN" by (simp add: js_simps)
  ultimately show ?thesis by simp
qed

text \<open>
  C9. In every session of the page against a freshly started engine, after
  any sequence of UI events, the client's lists are a faithful view of the
  engine's graph: the graph's vertices are the listed vertices together with
  the listed edges' endpoints, the listed edges, read as the engine reads a
  request, are the graph's edges in order, and so the engine's order and size
  are the number of distinct labels and the number of edges the page shows
  (spec section 8, order and size).
\<close>

theorem session_view_matches_engine:
  "let (c, g) = ui_session serve es (reset d w) in
     set (gverts g) = set (vertices c) \<union> endpoints (edges c)
     \<and> map gedge_of_cedge (edges c) = gedges g
     \<and> graph_order g = card (set (vertices c) \<union> endpoints (edges c))
     \<and> graph_size g = length (edges c)"
proof -
  obtain c g where s: "ui_session serve es (reset d w) = (c, g)" by (cases "ui_session serve es (reset d w)") auto
  have v: "view_sync c g" using ui_session_sync [of es d w] by (simp add: s)
  then show ?thesis using view_sync_counts [OF v] by (simp add: s view_sync_def)
qed

text \<open>
  C10. For labels without the characters the URL syntax gives a meaning to,
  the GET requests the client builds (App.js lines 72, 227, 241, 254) are
  read back by the engine as the route and the labels that were typed.
\<close>

theorem url_roundtrip:
  assumes "url_safe a" and "url_safe b"
  shows "url_parts (degree_url a) = (api @ ''/degree'', ''vertex='' @ a)
         \<and> query_args (''vertex='' @ a) = [(''vertex'', a)]
         \<and> url_parts (adjacency_url a) = (api @ ''/adjacency'', ''vertex='' @ a)
         \<and> url_parts (verify_adj_url a b) = (api @ ''/verify_adj'', ''vertex1='' @ a @ ''&vertex2='' @ b)
         \<and> query_args (''vertex1='' @ a @ ''&vertex2='' @ b) = [(''vertex1'', a), (''vertex2'', b)]
         \<and> url_parts (shortest_path_url a b) = (api @ ''/shortest_path'', ''vertex_start='' @ a @ ''&vertex_end='' @ b)
         \<and> query_args (''vertex_start='' @ a @ ''&vertex_end='' @ b) = [(''vertex_start'', a), (''vertex_end'', b)]"
proof -
  have d: "url_parts ((api @ ''/degree'') @ CHR ''?'' # (''vertex'' @ CHR ''='' # a)) = (api @ ''/degree'', ''vertex'' @ CHR ''='' # a)
        \<and> query_args (''vertex'' @ CHR ''='' # a) = [(''vertex'', a)]"
    using assms by (intro url_one_arg) (auto simp: query_key_ok_def)
  have j: "url_parts ((api @ ''/adjacency'') @ CHR ''?'' # (''vertex'' @ CHR ''='' # a)) = (api @ ''/adjacency'', ''vertex'' @ CHR ''='' # a)
        \<and> query_args (''vertex'' @ CHR ''='' # a) = [(''vertex'', a)]"
    using assms by (intro url_one_arg) (auto simp: query_key_ok_def)
  have v: "url_parts ((api @ ''/verify_adj'') @ CHR ''?'' # (''vertex1'' @ CHR ''='' # a @ CHR ''&'' # ''vertex2'' @ CHR ''='' # b))
           = (api @ ''/verify_adj'', ''vertex1'' @ CHR ''='' # a @ CHR ''&'' # ''vertex2'' @ CHR ''='' # b)
        \<and> query_args (''vertex1'' @ CHR ''='' # a @ CHR ''&'' # ''vertex2'' @ CHR ''='' # b) = [(''vertex1'', a), (''vertex2'', b)]"
    using assms by (intro url_two_args) (auto simp: query_key_ok_def)
  have s: "url_parts ((api @ ''/shortest_path'') @ CHR ''?'' # (''vertex_start'' @ CHR ''='' # a @ CHR ''&'' # ''vertex_end'' @ CHR ''='' # b))
           = (api @ ''/shortest_path'', ''vertex_start'' @ CHR ''='' # a @ CHR ''&'' # ''vertex_end'' @ CHR ''='' # b)
        \<and> query_args (''vertex_start'' @ CHR ''='' # a @ CHR ''&'' # ''vertex_end'' @ CHR ''='' # b) = [(''vertex_start'', a), (''vertex_end'', b)]"
    using assms by (intro url_two_args) (auto simp: query_key_ok_def)
  from d j v s show ?thesis
    by (simp add: degree_url_def adjacency_url_def verify_adj_url_def shortest_path_url_def)
qed

theorem url_roundtrip_witness:
  "url_parts (degree_url ''A'') = (api @ ''/degree'', ''vertex=A'')
   \<and> query_args (''vertex1=A&vertex2=B'') = [(''vertex1'', ''A''), (''vertex2'', ''B'')]"
  using url_roundtrip [of "''A''" "''B''"] by (simp add: url_safe_def c0_or_space_def)

text \<open>
  C11. The labels are spliced into the URL without encoding: the degree query
  for an existing vertex \<open>C++\<close> asks the engine about \<open>C  \<close> (a plus sign
  is a space in a query string), and unless that label exists too the page
  shows a 404 error for a vertex that is in the graph.
\<close>

theorem degree_query_plus_label:
  assumes "''C  '' \<notin> set (gverts g)"
  shows "handleCheckDegree serve (c\<lparr>degreeVertex := ''C++''\<rparr>, g) =
           (c\<lparr>degreeVertex := ''C++'',
               error := JsVal ''Erro ao verificar grau: Request failed with status code 404''\<rparr>, g)"
proof -
  have "serve_get g (degree_url ''C++'') = Fail UnknownVertex"
    using assms by (simp add: serve_get_def degree_url_def url_parts_def browser_url_def c0_or_space_def api_def
                     query_arg_def query_args_def hex_digit_def degree_def result_reply_def)
  then show ?thesis by (simp add: handleCheckDegree_def)
qed

theorem degree_query_plus_label_witness:
  "''C++'' \<in> set (gverts (add_vertex ''C++'' (reset False False)))
   \<and> handleCheckDegree serve (init_client\<lparr>degreeVertex := ''C++''\<rparr>, add_vertex ''C++'' (reset False False)) =
       (init_client\<lparr>degreeVertex := ''C++'',
          error := JsVal ''Erro ao verificar grau: Request failed with status code 404''\<rparr>, add_vertex ''C++'' (reset False False))"
  using degree_query_plus_label [of "add_vertex ''C++'' (reset False False)" init_client]
  by (simp add: add_vertex_def reset_def)

text \<open>
  C12. The degree query (App.js lines 252--263) shows the engine's degree of
  the typed vertex, in and out degrees for a directed graph, and for a vertex
  that was never inserted shows the 404 error message instead (spec section 8,
  error scenario).
\<close>

theorem degree_query_engine:
  assumes "url_safe (degreeVertex c)"
  shows "handleCheckDegree serve (c, g) =
           (if degreeVertex c \<in> set (gverts g) then
              (c\<lparr>degreeMessage := DMVal (if is_directed g
                   then DegreeInOut (out_degree (degreeVertex c) g) (in_degree (degreeVertex c) g)
                   else Degree (out_degree (degreeVertex c) g + in_degree (degreeVertex c) g)),
                 error := JsVal []\<rparr>, g)
            else (c\<lparr>error := JsVal ''Erro ao verificar grau: Request failed with status code 404''\<rparr>, g))"
  using assms by (simp add: handleCheckDegree_serve degree_def)

theorem degree_query_engine_witness:
  "handleCheckDegree serve (init_client\<lparr>degreeVertex := ''A''\<rparr>, reset False False) =
     (init_client\<lparr>degreeVertex := ''A'',
        error := JsVal ''Erro ao verificar grau: Request failed with status code 404''\<rparr>, reset False False)"
  using degree_query_engine [of "init_client\<lparr>degreeVertex := ''A''\<rparr>" "reset False False"]
  by (simp add: url_safe_def c0_or_space_def reset_def)

text \<open>
  C13. In an undirected graph the adjacency check (App.js lines 70--80)
  shows the same result for the pair (a, b) as for (b, a).
\<close>

theorem verify_adjacency_symmetric:
  assumes "url_safe a" and "url_safe b" and "\<not> is_directed g"
  shows "adjResult (fst (handleVerifyAdjacency serve (c\<lparr>vertex1 := a, vertex2 := b\<rparr>, g))) =
         adjResult (fst (handleVerifyAdjacency serve (c\<lparr>vertex1 := b, vertex2 := a\<rparr>, g)))"
  using assms adj_list_symmetric [OF assms(3), of a b]
  by (auto simp: handleVerifyAdjacency_serve are_adjacent_def)

theorem verify_adjacency_symmetric_witness:
  "adjResult (fst (handleVerifyAdjacency serve (init_client\<lparr>vertex1 := ''A'', vertex2 := ''B''\<rparr>, \<lparr>is_directed = False, is_weighted = False, gverts = [''A'', ''B''], gedges = [(''A'', ''B'', None)]\<rparr>))) =
   adjResult (fst (handleVerifyAdjacency serve (init_client\<lparr>vertex1 := ''B'', vertex2 := ''A''\<rparr>, \<lparr>is_directed = False, is_weighted = False, gverts = [''A'', ''B''], gedges = [(''A'', ''B'', None)]\<rparr>)))"
  using verify_adjacency_symmetric [of "''A''" "''B''" "\<lparr>is_directed = False, is_weighted = False, gverts = [''A'', ''B''], gedges = [(''A'', ''B'', None)]\<rparr>" init_client]
  by (simp add: url_safe_def c0_or_space_def)

text \<open>
  C14. The degrees the page shows, queried for each vertex of a well-formed
  graph, sum to twice the number of edges (spec section 8, degree sums).
\<close>

theorem client_degree_sum:
  assumes "graph_inv g" and "\<forall>v\<in>set (gverts g). url_safe v"
  shows "(\<Sum>v\<leftarrow>gverts g. case degreeMessage (fst (handleCheckDegree serve (c\<lparr>degreeVertex := v\<rparr>, g))) of
            DMVal d \<Rightarrow> degree_total d | _ \<Rightarrow> 0) = 2 * graph_size g"
proof -
  have "(\<Sum>v\<leftarrow>gverts g. case degreeMessage (fst (handleCheckDegree serve (c\<lparr>degreeVertex := v\<rparr>, g))) of
            DMVal d \<Rightarrow> degree_total d | _ \<Rightarrow> 0)
        = (\<Sum>v\<leftarrow>gverts g. case degree v g of Inr d \<Rightarrow> degree_total d | Inl _ \<Rightarrow> 0)"
  proof (rule arg_cong [where f = sum_list], rule map_cong [OF refl])
    fix v assume v: "v \<in> set (gverts g)"
    with assms(2) have "url_safe v" by blast
    with v show "(case degreeMessage (fst (handleCheckDegree serve (c\<lparr>degreeVertex := v\<rparr>, g))) of
            DMVal d \<Rightarrow> degree_total d | _ \<Rightarrow> 0) = (case degree v g of Inr d \<Rightarrow> degree_total d | Inl _ \<Rightarrow> 0)"
      by (simp add: handleCheckDegree_serve degree_def)
  qed
  also have "\<dots> = 2 * graph_size g" using assms(1) by (rule degree_total_sum)
  finally show ?thesis .
qed

theorem client_degree_sum_witness:
  "(\<Sum>v\<leftarrow>[''A'', ''B'', ''C'']. case degreeMessage (fst (handleCheckDegree serve (init_client\<lparr>degreeVertex := v\<rparr>,
       \<lparr>is_directed = False, is_weighted = False, gverts = [''A'', ''B'', ''C''],
        gedges = [(''A'', ''B'', None), (''B'', ''C'', None), (''C'', ''A'', None)]\<rparr>))) of
            DMVal d \<Rightarrow> degree_total d | _ \<Rightarrow> 0) = 6"
  using client_degree_sum [of "\<lparr>is_directed = False, is_weighted = False, gverts = [''A'', ''B'', ''C''],
        gedges = [(''A'', ''B'', None), (''B'', ''C'', None), (''C'', ''A'', None)]\<rparr>" init_client]
  by (simp add: graph_inv_def weight_ok_def url_safe_def c0_or_space_def graph_size_def)

text \<open>
  C15. Submitting the creation form and then asking for the graph
  information shows order 0 and size 0 and empties the page's lists, whatever
  the state before (spec section 8).
\<close>

theorem create_then_info_empty:
  "let (c, g) = ui_run serve [CreateEv SubmitCreate, QueryEv ClickGraphInfo] cs
   in graphInfo c = (JsVal 0, JsVal 0) \<and> vertices c = [] \<and> edges c = []
      \<and> graph_order g = 0 \<and> graph_size g = 0"
proof -
  obtain c0 g0 where cs: "cs = (c0, g0)" by (cases cs)
  show ?thesis
    by (simp add: cs handleGraphCreation_serve fetchGraphInfo_serve) (simp add: reset_def graph_order_def graph_size_def)
qed

text \<open>
  C16. On an unweighted well-formed graph, asking the page for a shortest
  path between two vertices either shows a path that is a walk from the start
  to the end with no shorter walk, and its edge count as length (spec section 8,
  lower bound), or leaves the page unchanged, and then no walk joins the two.
\<close>

theorem find_path_shortest:
  assumes "graph_inv g" and "\<not> is_weighted g" and "url_safe (pathStart c)" and "url_safe (pathEnd c)"
    and "pathStart c \<in> set (gverts g)" and "pathEnd c \<in> set (gverts g)"
  shows "(\<exists>p. handleFindShortestPath serve (c, g) =
              (c\<lparr>shortestPath := PathList p, shortestPathLength := JsVal (of_nat (length p - 1))\<rparr>, g)
            \<and> walk g p \<and> hd p = pathStart c \<and> last p = pathEnd c
            \<and> (\<forall>q. walk g q \<and> hd q = pathStart c \<and> last q = pathEnd c \<longrightarrow> length p \<le> length q))
         \<or> (handleFindShortestPath serve (c, g) = (c, g)
            \<and> (\<forall>q. walk g q \<and> hd q = pathStart c \<longrightarrow> last q \<noteq> pathEnd c))"
proof -
  have spec: "bfs_spec g (pathStart c) (pathEnd c) (bfs_path g (pathStart c) (pathEnd c))"
    using assms(1,5) by (rule bfs_path_correct)
  have h: "handleFindShortestPath serve (c, g) =
           (case map_option (map_sum id (\<lambda>p. (p, of_nat (length p - 1)))) (bfs_path g (pathStart c) (pathEnd c)) of
              Some (Inr (p, l)) \<Rightarrow> (c\<lparr>shortestPath := PathList p, shortestPathLength := JsVal l\<rparr>, g)
            | _ \<Rightarrow> (c, g))"
    using assms by (simp add: handleFindShortestPath_serve shortest_path_unweighted)
  show ?thesis
  proof (cases "bfs_path g (pathStart c) (pathEnd c)")
    case None
    with spec show ?thesis by (simp add: bfs_spec_def)
  next
    case (Some r)
    show ?thesis
    proof (cases r)
      case (Inl e)
      with spec Some h show ?thesis by (simp add: bfs_spec_def)
    next
      case (Inr p)
      with spec Some have w: "walk g p \<and> hd p = pathStart c \<and> last p = pathEnd c
            \<and> (\<forall>q. walk g q \<and> hd q = pathStart c \<and> last q = pathEnd c \<longrightarrow> length p \<le> length q)"
        by (simp add: bfs_spec_def)
      from Inr Some h have "handleFindShortestPath serve (c, g) =
              (c\<lparr>shortestPath := PathList p, shortestPathLength := JsVal (of_nat (length p - 1))\<rparr>, g)"
        by simp
      with w show ?thesis by blast
    qed
  qed
qed

theorem find_path_shortest_witness:
  "(\<exists>p. handleFindShortestPath serve (init_client\<lparr>pathStart := ''A'', pathEnd := ''C''\<rparr>, \<lparr>is_directed = False, is_weighted = False, gverts = [''A'', ''B'', ''C''], gedges = [(''A'', ''B'', None), (''B'', ''C'', None)]\<rparr>) =
          (init_client\<lparr>pathStart := ''A'', pathEnd := ''C''\<rparr>\<lparr>shortestPath := PathList p, shortestPathLength := JsVal (of_nat (length p - 1))\<rparr>, \<lparr>is_directed = False, is_weighted = False, gverts = [''A'', ''B'', ''C''], gedges = [(''A'', ''B'', None), (''B'', ''C'', None)]\<rparr>)
        \<and> walk \<lparr>is_directed = False, is_weighted = False, gverts = [''A'', ''B'', ''C''], gedges = [(''A'', ''B'', None), (''B'', ''C'', None)]\<rparr> p \<and> hd p = ''A'' \<and> last p = ''C''
        \<and> (\<forall>q. walk \<lparr>is_directed = False, is_weighted = False, gverts = [''A'', ''B'', ''C''], gedges = [(''A'', ''B'', None), (''B'', ''C'', None)]\<rparr> q \<and> hd q = ''A'' \<and> last q = ''C'' \<longrightarrow> length p \<le> length q))
   \<or> (handleFindShortestPath serve (init_client\<lparr>pathStart := ''A'', pathEnd := ''C''\<rparr>, \<lparr>is_directed = False, is_weighted = False, gverts = [''A'', ''B'', ''C''], gedges = [(''A'', ''B'', None), (''B'', ''C'', None)]\<rparr>) = (init_client\<lparr>pathStart := ''A'', pathEnd := ''C''\<rparr>, \<lparr>is_directed = False, is_weighted = False, gverts = [''A'', ''B'', ''C''], gedges = [(''A'', ''B'', None), (''B'', ''C'', None)]\<rparr>)
        \<and> (\<forall>q. walk \<lparr>is_directed = False, is_weighted = False, gverts = [''A'', ''B'', ''C''], gedges = [(''A'', ''B'', None), (''B'', ''C'', None)]\<rparr> q \<and> hd q = ''A'' \<longrightarrow> last q \<noteq> ''C''))"
  using find_path_shortest [of "\<lparr>is_directed = False, is_weighted = False, gverts = [''A'', ''B'', ''C''], gedges = [(''A'', ''B'', None), (''B'', ''C'', None)]\<rparr>" "init_client\<lparr>pathStart := ''A'', pathEnd := ''C''\<rparr>"]
  by (simp add: graph_inv_def weight_ok_def url_safe_def c0_or_space_def)

text \<open>
  C17. The engine's path search always returns on a well-formed graph,
  weighted or not: one round per vertex (plus one for BFS) is enough fuel for
  the BFS and for Dijkstra's loop and path reconstruction, so the path query the
  page sends is answered with a path or an error and never runs out.
\<close>

theorem path_query_answered:
  assumes "graph_inv g" and "url_safe s" and "url_safe t"
  shows "\<exists>r. shortest_path g s t = Some r \<and> serve_get g (shortest_path_url s t) = result_reply r (\<lambda>(p, l). RPath p l)"
proof -
  obtain r where "shortest_path g s t = Some r" using shortest_path_returns [OF assms(1)] by blast
  then show ?thesis using assms(2,3) by (simp add: serve_get_shortest_path)
qed

theorem path_query_answered_witness:
  "\<exists>r. shortest_path \<lparr>is_directed = False, is_weighted = False, gverts = [''A'', ''B'', ''C''], gedges = [(''A'', ''B'', None), (''B'', ''C'', None)]\<rparr> ''A'' ''C'' = Some r
     \<and> serve_get \<lparr>is_directed = False, is_weighted = False, gverts = [''A'', ''B'', ''C''], gedges = [(''A'', ''B'', None), (''B'', ''C'', None)]\<rparr> (shortest_path_url ''A'' ''C'') = result_reply r (\<lambda>(p, l). RPath p l)"
  by (rule path_query_answered) (simp_all add: graph_inv_def weight_ok_def url_safe_def c0_or_space_def)

text \<open>
  C18. The vertex list a batch produces (a JavaScript \<open>Set\<close> filled while the
  lines are read, App.js lines 84--99) is the reference list of the parsed
  edges' endpoints with every label kept at its first occurrence.
\<close>

theorem batch_vertices_first_occurrence:
  "fst (batch_items bt) =
     rev (remdups (rev (concat (map (\<lambda>e. [edge_v1 e, edge_v2 e]) (snd (batch_items bt))))))"
  by (simp add: batch_items_def add_lines_vertices_fold add_lines_edges fold_list_insert_remdups)

text \<open>
  C19. Every edge handed to vis-network (App.js lines 276--284) has node ids in
  the range from -1 to the number of nodes minus one; an id is -1 exactly when
  the endpoint is missing from the client's vertex list, and otherwise it is
  the id of the node carrying that endpoint's label.
\<close>

theorem vis_edge_ids_bounded:
  assumes "i < length (edges c)"
  shows "let e = snd (vis_graph c) ! i; x = edges c ! i; n = int (length (fst (vis_graph c))) in
           -1 \<le> from_id e \<and> from_id e < n \<and> -1 \<le> to_id e \<and> to_id e < n
           \<and> (from_id e = -1 \<longleftrightarrow> edge_v1 x \<notin> set (vertices c))
           \<and> (to_id e = -1 \<longleftrightarrow> edge_v2 x \<notin> set (vertices c))
           \<and> (0 \<le> from_id e \<longrightarrow> fst (vis_graph c) ! nat (from_id e) = (nat (from_id e), edge_v1 x))
           \<and> (0 \<le> to_id e \<longrightarrow> fst (vis_graph c) ! nat (to_id e) = (nat (to_id e), edge_v2 x))"
proof -
  let ?x = "edges c ! i" and ?vs = "vertices c"
  have e: "snd (vis_graph c) ! i = vis_edge_of ?vs (directed c) ?x" using assms by (simp add: vis_graph_def)
  have n: "length (fst (vis_graph c)) = length ?vs" by (simp add: vis_graph_def)
  have node: "0 \<le> js_index_of ?vs v \<longrightarrow> fst (vis_graph c) ! nat (js_index_of ?vs v) = (nat (js_index_of ?vs v), v)" for v
  proof
    assume "0 \<le> js_index_of ?vs v"
    then have "v \<in> set ?vs" using js_index_of_notin [of v ?vs] by auto
    with js_index_of_in [of v ?vs] have v: "?vs ! nat (js_index_of ?vs v) = v" by simp
    have "nat (js_index_of ?vs v) < length ?vs"
      using js_index_of_bounds [of ?vs v] \<open>0 \<le> js_index_of ?vs v\<close> by linarith
    with v show "fst (vis_graph c) ! nat (js_index_of ?vs v) = (nat (js_index_of ?vs v), v)"
      by (simp add: vis_graph_nodes)
  qed
  show ?thesis
    using js_index_of_bounds [of ?vs "edge_v1 ?x"] js_index_of_bounds [of ?vs "edge_v2 ?x"]
      js_index_of_neg [of ?vs "edge_v1 ?x"] js_index_of_neg [of ?vs "edge_v2 ?x"]
      node [of "edge_v1 ?x"] node [of "edge_v2 ?x"]
    by (simp add: Let_def e n vis_edge_of_def)
qed

theorem vis_edge_ids_bounded_witness:
  "let e = snd (vis_graph (init_client\<lparr>vertices := [''A''], edges := [Edge2 ''A'' ''B'']\<rparr>)) ! 0 in
     from_id e \<noteq> -1 \<and> to_id e = -1"
  using vis_edge_ids_bounded [of 0 "init_client\<lparr>vertices := [''A''], edges := [Edge2 ''A'' ''B'']\<rparr>"]
  by (auto simp: Let_def)

text \<open>
  C20. Whatever the page shows, one click on the batch button in batch mode (with
  any text, even an empty one) brings the page's lists back in step with a
  well-formed engine graph, and every later event keeps them in step: the page
  recovers, for instance, after a reload left it with empty lists while the
  engine kept its graph.
\<close>

theorem batch_insert_resyncs:
  assumes "graph_inv g" and "insertMode c = ''batch''"
  shows "let (c', g') = ui_run serve (InsertEv ClickBatchInsert # es) (c, g) in
           set (gverts g') = set (vertices c') \<union> endpoints (edges c')
           \<and> map gedge_of_cedge (edges c') = gedges g'"
proof -
  have first: "ui_step serve (InsertEv ClickBatchInsert) (c, g) = handleBatchInsert serve (c, g)"
    using assms(2) by simp
  obtain c1 g1 where h: "handleBatchInsert serve (c, g) = (c1, g1)" by (cases "handleBatchInsert serve (c, g)")
  have "view_sync c1 g1" using handleBatchInsert_sync [OF assms(1), of c] by (simp add: h)
  then have v: "view_sync (fst (ui_run serve es (c1, g1))) (snd (ui_run serve es (c1, g1)))" by (rule ui_run_sync)
  have run: "ui_run serve (InsertEv ClickBatchInsert # es) (c, g) = ui_run serve es (c1, g1)"
    by (simp only: ui_run.simps first h)
  obtain c' g' where r: "ui_run serve es (c1, g1) = (c', g')" by (cases "ui_run serve es (c1, g1)")
  from v show ?thesis unfolding run r by (simp add: view_sync_def)
qed

theorem batch_insert_resyncs_witness:
  "let (c', g') = ui_run serve [InsertEv ClickBatchInsert]
        (init_client, \<lparr>is_directed = False, is_weighted = False, gverts = [''A'', ''B''], gedges = [(''A'', ''B'', None)]\<rparr>) in
     set (gverts g') = set (vertices c') \<union> endpoints (edges c') \<and> map gedge_of_cedge (edges c') = gedges g'"
  using batch_insert_resyncs [of "\<lparr>is_directed = False, is_weighted = False, gverts = [''A'', ''B''], gedges = [(''A'', ''B'', None)]\<rparr>" init_client "[]"]
  by (simp add: graph_inv_def weight_ok_def init_client_def)

text \<open>
  C21. Every session of the page keeps the engine's graph well-formed (no
  repeated vertex, every edge between vertices and with a weight exactly when
  the graph is weighted), whatever the events: the engine's state invariant
  holds over the client's whole interface.
\<close>

theorem session_engine_well_formed:
  assumes "graph_inv g"
  shows "graph_inv (snd (ui_run serve es (c, g)))"
  using serve_graph_inv assms by (rule ui_run_server_inv)

theorem session_engine_well_formed_witness:
  "graph_inv (snd (ui_run serve [InsertEv (TypeBatch ''A B 1''), InsertEv ClickBatchInsert] (init_client, reset False False)))"
  using graph_inv_reset by (rule session_engine_well_formed)

text \<open>
  C22. A path or adjacency query that fails (here: an unknown start label) leaves
  the page's state unchanged: the page shows no error and keeps displaying the
  result of the previous query, although spec section 6 expects the error to be
  rendered.
\<close>

theorem failed_queries_keep_stale_results:
  assumes "url_safe a" and "url_safe b" and "a \<notin> set (gverts g)"
  shows "handleFindShortestPath serve (c\<lparr>pathStart := a, pathEnd := b\<rparr>, g) = (c\<lparr>pathStart := a, pathEnd := b\<rparr>, g)
         \<and> handleVerifyAdjacency serve (c\<lparr>vertex1 := a, vertex2 := b\<rparr>, g) = (c\<lparr>vertex1 := a, vertex2 := b\<rparr>, g)"
  using assms by (simp add: handleFindShortestPath_serve shortest_path_def handleVerifyAdjacency_serve are_adjacent_def)

theorem failed_queries_keep_stale_results_witness:
  "handleFindShortestPath serve
     (init_client\<lparr>shortestPath := PathList [''A'', ''B''], pathStart := ''Z'', pathEnd := ''B''\<rparr>, reset False False)
   = (init_client\<lparr>shortestPath := PathList [''A'', ''B''], pathStart := ''Z'', pathEnd := ''B''\<rparr>, reset False False)"
  using failed_queries_keep_stale_results [of "''Z''" "''B''" "reset False False" "init_client\<lparr>shortestPath := PathList [''A'', ''B'']\<rparr>"]
  by (simp add: url_safe_def c0_or_space_def reset_def)

text \<open>
  C23. The adjacency check stores the engine's boolean answer, but React renders a
  boolean as nothing (App.js lines 582--586): the line that should show the
  answer is empty whether the vertices are adjacent or not.
\<close>

theorem adjacency_result_invisible:
  assumes "url_safe a" and "url_safe b" and "a \<in> set (gverts g)" and "b \<in> set (gverts g)"
  shows "let c' = fst (handleVerifyAdjacency serve (c\<lparr>vertex1 := a, vertex2 := b\<rparr>, g)) in
           adjResult c' = JsVal (b \<in> set (adj_list a g)) \<and> map (screen_text ns) (adj_result_view c') = [[]]"
  using assms by (simp add: handleVerifyAdjacency_serve are_adjacent_def adj_result_view_def screen_text_def)

theorem adjacency_result_invisible_witness:
  "let c' = fst (handleVerifyAdjacency serve (init_client\<lparr>vertex1 := ''A'', vertex2 := ''B''\<rparr>,
              \<lparr>is_directed = False, is_weighted = False, gverts = [''A'', ''B''], gedges = [(''A'', ''B'', None)]\<rparr>)) in
     adjResult c' = JsVal True \<and> map (screen_text (\<lambda>n. [])) (adj_result_view c') = [[]]"
  using adjacency_result_invisible [of "''A''" "''B''"
      "\<lparr>is_directed = False, is_weighted = False, gverts = [''A'', ''B''], gedges = [(''A'', ''B'', None)]\<rparr>" init_client "\<lambda>n. []"]
  by (simp add: url_safe_def c0_or_space_def adj_list_def edge_step_def list_of_set_order_def)

text \<open>
  C24. In an unweighted graph every edge line of the edge list (App.js lines
  788--796) ends with the text "undefined", since the template literal prints
  the missing weight slot.
\<close>

theorem unweighted_edges_show_undefined:
  assumes "graph_inv g" and "\<not> is_weighted g"
  shows "let (c', g') = handleBatchInsert serve (c, g) in
           map (screen_text ns) (edge_list_view c') = map (\<lambda>(a, b, w). a @ '' - '' @ b @ '' undefined'') (gedges g')"
proof -
  define g' where "g' = fst (insert_batch (fst (batch_items (batchData c)))
                 (map (\<lambda>(a, b, w). (a, b, weight_of_wire w)) (map wire_of_cedge (snd (batch_items (batchData c))))) g)"
  have inv: "graph_inv g'" using assms(1) by (simp add: g'_def graph_inv_insert_batch)
  have uw: "\<not> is_weighted g'"
    using assms(2) by (simp add: g'_def insert_batch_def add_edges_mode fold_add_vertex_keeps)
  have M: "map (screen_text ns) (map edge_item_text (map (\<lambda>e. cedge_of_wire (wire_of_gedge e)) (gedges g')))
        = map (\<lambda>(a, b, w). a @ '' - '' @ b @ '' undefined'') (gedges g')"
  proof -
    have "\<forall>e\<in>set (gedges g'). screen_text ns (edge_item_text (cedge_of_wire (wire_of_gedge e))) =
            (\<lambda>(a, b, w). a @ '' - '' @ b @ '' undefined'') e"
    proof
      fix e assume e: "e \<in> set (gedges g')"
      obtain a b w where abw: "e = (a, b, w)" by (cases e)
      with e inv uw have "w = None" by (simp add: unweighted_no_weights)
      with abw show "screen_text ns (edge_item_text (cedge_of_wire (wire_of_gedge e))) =
            (\<lambda>(a, b, w). a @ '' - '' @ b @ '' undefined'') e"
        using edge_item_text_unweighted by simp
    qed
    then show ?thesis by (simp add: map_eq_conv)
  qed
  have H: "handleBatchInsert serve (c, g) =
             (c\<lparr>vertices := gverts g', edges := map (\<lambda>e. cedge_of_wire (wire_of_gedge e)) (gedges g'),
                graphInfo := (JsVal (graph_order g'), JsVal (graph_size g'))\<rparr>, g')"
    by (simp add: handleBatchInsert_serve g'_def Let_def)
  show ?thesis unfolding H using M by (simp add: edge_list_view_def)
qed

theorem unweighted_edges_show_undefined_witness:
  "let (c', g') = handleBatchInsert serve (init_client\<lparr>batchData := ''A B''\<rparr>, reset False False) in
     map (screen_text (\<lambda>n. [])) (edge_list_view c') = map (\<lambda>(a, b, w). a @ '' - '' @ b @ '' undefined'') (gedges g')"
  using unweighted_edges_show_undefined [of "reset False False" "init_client\<lparr>batchData := ''A B''\<rparr>" "\<lambda>n. []"]
  by (simp add: graph_inv_reset) (simp add: reset_def)

text \<open>
  C25. On a well-formed graph the page reports an Eulerian circuit exactly
  when the graph has no edges, or every vertex that has an edge reaches
  every other such vertex by a walk and every vertex is balanced: in-degree
  equal to out-degree in a directed graph, even degree in an undirected one.
\<close>

theorem euler_circuit_iff_walks:
  assumes "graph_inv g"
  shows "eulerianResult (fst (handleCheckEulerian serve (c, g))) = JsVal EulerCircuit \<longleftrightarrow>
     gedges g = [] \<or>
     ((\<forall>v\<in>set (active g). \<forall>w\<in>set (active g). w \<in> reachable_set g v) \<and>
      (\<forall>v\<in>set (gverts g). if is_directed g then out_degree v g = in_degree v g
                           else even (out_degree v g + in_degree v g)))"
  using eulerian_circuit_walks [OF assms] by (simp add: handleCheckEulerian_serve)

theorem euler_circuit_iff_walks_witness:
  "let g = \<lparr>is_directed = False, is_weighted = False, gverts = [''A'', ''B'', ''C''],
            gedges = [(''A'', ''B'', None), (''B'', ''C'', None), (''C'', ''A'', None)]\<rparr>
   in graph_inv g \<and> (\<forall>v\<in>set (active g). \<forall>w\<in>set (active g). w \<in> reachable_set g v)"
proof -
  define g where "g = \<lparr>is_directed = False, is_weighted = False, gverts = [''A'', ''B'', ''C''],
            gedges = [(''A'', ''B'', None), (''B'', ''C'', None), (''C'', ''A'', None)]\<rparr>"
  have gi: "graph_inv g" by (simp add: g_def graph_inv_def weight_ok_def)
  have "eulerianResult (fst (handleCheckEulerian serve (init_client, g))) = JsVal EulerCircuit"
    unfolding handleCheckEulerian_serve by (simp add: g_def) code_simp
  with euler_circuit_iff_walks [OF gi] have "\<forall>v\<in>set (active g). \<forall>w\<in>set (active g). w \<in> reachable_set g v"
    by (simp add: g_def)
  with gi show ?thesis unfolding g_def Let_def by simp
qed

text \<open>
  C26. On a well-formed undirected graph the page reports an Eulerian path
  (and not a circuit) exactly when the graph has an edge, its vertices with
  edges are joined by walks, and exactly two vertices have odd degree.
\<close>

theorem euler_path_iff_walks:
  assumes "graph_inv g" and "\<not> is_directed g"
  shows "eulerianResult (fst (handleCheckEulerian serve (c, g))) = JsVal EulerPath \<longleftrightarrow>
     gedges g \<noteq> [] \<and> (\<forall>v\<in>set (active g). \<forall>w\<in>set (active g). w \<in> reachable_set g v) \<and>
     length (filter (\<lambda>v. odd (out_degree v g + in_degree v g)) (gverts g)) = 2"
  using eulerian_path_walks_undirected [OF assms] by (simp add: handleCheckEulerian_serve)

theorem euler_path_iff_walks_witness:
  "let g = \<lparr>is_directed = False, is_weighted = False, gverts = [''A'', ''B'', ''C'', ''D''],
            gedges = [(''A'', ''B'', None), (''B'', ''C'', None), (''C'', ''D'', None)]\<rparr>
   in graph_inv g \<and> (\<forall>v\<in>set (active g). \<forall>w\<in>set (active g). w \<in> reachable_set g v)"
proof -
  define g where "g = \<lparr>is_directed = False, is_weighted = False, gverts = [''A'', ''B'', ''C'', ''D''],
            gedges = [(''A'', ''B'', None), (''B'', ''C'', None), (''C'', ''D'', None)]\<rparr>"
  have gi: "graph_inv g" by (simp add: g_def graph_inv_def weight_ok_def)
  have ud: "\<not> is_directed g" by (simp add: g_def)
  have "eulerianResult (fst (handleCheckEulerian serve (init_client, g))) = JsVal EulerPath"
    unfolding handleCheckEulerian_serve by (simp add: g_def) code_simp
  with euler_path_iff_walks [OF gi ud] have "\<forall>v\<in>set (active g). \<forall>w\<in>set (active g). w \<in> reachable_set g v"
    by simp
  with gi show ?thesis unfolding g_def Let_def by simp
qed

text \<open>
  C27. On a well-formed weighted graph with non-negative weights, asking the
  page for a shortest path between two vertices either shows a walk from the
  start to the end, together with its cost as the length, such that no walk
  between them is cheaper (spec section 4.3, Dijkstra), or leaves the page
  unchanged, and then no walk joins the two.
\<close>

theorem find_weighted_path_cheapest:
  assumes "graph_inv g" and "is_weighted g" and "nonneg_weights g"
    and "url_safe (pathStart c)" and "url_safe (pathEnd c)"
    and "pathStart c \<in> set (gverts g)" and "pathEnd c \<in> set (gverts g)"
  shows "(\<exists>p l. handleFindShortestPath serve (c, g) =
              (c\<lparr>shortestPath := PathList p, shortestPathLength := JsVal l\<rparr>, g)
            \<and> path_cost g p l \<and> hd p = pathStart c \<and> last p = pathEnd c
            \<and> (\<forall>q d. path_cost g q d \<and> hd q = pathStart c \<and> last q = pathEnd c \<longrightarrow> l \<le> d))
         \<or> (handleFindShortestPath serve (c, g) = (c, g)
            \<and> (\<forall>q d. path_cost g q d \<and> hd q = pathStart c \<longrightarrow> last q \<noteq> pathEnd c))"
  using assms by (rule handleFindShortestPath_weighted)

theorem find_weighted_path_cheapest_witness:
  "let g = \<lparr>is_directed = False, is_weighted = True, gverts = [''A'', ''B'', ''C''],
            gedges = [(''A'', ''B'', Some 3), (''A'', ''C'', Some 1), (''C'', ''B'', Some 1)]\<rparr>;
       c = init_client\<lparr>pathStart := ''A'', pathEnd := ''B''\<rparr>
   in handleFindShortestPath serve (c, g) =
        (c\<lparr>shortestPath := PathList [''A'', ''C'', ''B''], shortestPathLength := JsVal 2\<rparr>, g)
      \<and> (\<forall>q d. path_cost g q d \<and> hd q = ''A'' \<and> last q = ''B'' \<longrightarrow> 2 \<le> d)"
proof -
  define g where "g = \<lparr>is_directed = False, is_weighted = True, gverts = [''A'', ''B'', ''C''],
            gedges = [(''A'', ''B'', Some (3::rat)), (''A'', ''C'', Some 1), (''C'', ''B'', Some 1)]\<rparr>"
  define c where "c = init_client\<lparr>pathStart := ''A'', pathEnd := ''B''\<rparr>"
  have hyps: "graph_inv g" "is_weighted g" "nonneg_weights g" "url_safe (pathStart c)" "url_safe (pathEnd c)"
    "pathStart c \<in> set (gverts g)" "pathEnd c \<in> set (gverts g)"
    by (simp_all add: g_def c_def graph_inv_def weight_ok_def nonneg_weights_def url_safe_def c0_or_space_def)
  have run: "handleFindShortestPath serve (c, g) =
        (c\<lparr>shortestPath := PathList [''A'', ''C'', ''B''], shortestPathLength := JsVal 2\<rparr>, g)"
    using hyps(4,5) unfolding handleFindShortestPath_serve [OF hyps(4,5)]
    by (simp add: g_def c_def shortest_path_def nonneg_weights_def dijkstra_path_def wedge_step_def)
  have "\<forall>q d. path_cost g q d \<and> hd q = ''A'' \<and> last q = ''B'' \<longrightarrow> 2 \<le> d"
    using find_weighted_path_cheapest [OF hyps]
  proof (elim disjE exE conjE)
    fix p l assume e: "handleFindShortestPath serve (c, g) =
              (c\<lparr>shortestPath := PathList p, shortestPathLength := JsVal l\<rparr>, g)"
      and opt: "\<forall>q d. path_cost g q d \<and> hd q = pathStart c \<and> last q = pathEnd c \<longrightarrow> l \<le> d"
    have "JsVal l = shortestPathLength (fst (handleFindShortestPath serve (c, g)))" using e by simp
    also have "\<dots> = JsVal 2" using run by simp
    finally have "l = 2" by simp
    with opt show ?thesis by (simp add: c_def)
  next
    assume e: "handleFindShortestPath serve (c, g) = (c, g)"
    have "shortestPath c = shortestPath (fst (handleFindShortestPath serve (c, g)))" using e by simp
    also have "\<dots> = PathList [''A'', ''C'', ''B'']" using run by simp
    finally show ?thesis by (simp add: c_def init_client_def)
  qed
  with run show ?thesis unfolding g_def c_def Let_def by simp
qed

text \<open>
  C28. On an unweighted well-formed graph the engine answers the page's path
  query with BFS; the length the page then shows is the cost Dijkstra's search
  finds on the same graph with every edge of cost 1, and when Dijkstra finds
  no path the page keeps its previous length.  The two searches may return
  different paths of that length.
\<close>

theorem bfs_matches_dijkstra:
  assumes "graph_inv g" and "\<not> is_weighted g" and "url_safe (pathStart c)" and "url_safe (pathEnd c)"
    and "pathStart c \<in> set (gverts g)" and "pathEnd c \<in> set (gverts g)"
  shows "shortestPathLength (fst (handleFindShortestPath serve (c, g))) =
           (case dijkstra_path g (pathStart c) (pathEnd c) of
              Some (Inr (p, l)) \<Rightarrow> JsVal l
            | _ \<Rightarrow> shortestPathLength c)"
proof -
  have e: "map_option (map_sum id snd) (shortest_path g (pathStart c) (pathEnd c)) =
           map_option (map_sum id snd) (dijkstra_path g (pathStart c) (pathEnd c))"
    using assms(1,2,5,6) by (rule shortest_path_unweighted_dijkstra)
  have h: "shortestPathLength (fst (handleFindShortestPath serve (c, g))) =
           (case map_option (map_sum id snd) (shortest_path g (pathStart c) (pathEnd c)) of
              Some (Inr l) \<Rightarrow> JsVal l
            | _ \<Rightarrow> shortestPathLength c)"
    using assms(3,4)
    by (simp add: handleFindShortestPath_serve split: option.splits sum.splits prod.splits)
  show ?thesis unfolding h e by (simp split: option.splits sum.splits prod.splits)
qed

theorem bfs_matches_dijkstra_witness:
  "shortestPathLength (fst (handleFindShortestPath serve (init_client\<lparr>pathStart := ''A'', pathEnd := ''C''\<rparr>,
      \<lparr>is_directed = False, is_weighted = False, gverts = [''A'', ''B'', ''C''], gedges = [(''A'', ''B'', None), (''B'', ''C'', None), (''A'', ''C'', None)]\<rparr>)))
   = JsVal 1"
proof -
  have "shortestPathLength (fst (handleFindShortestPath serve (init_client\<lparr>pathStart := ''A'', pathEnd := ''C''\<rparr>,
      \<lparr>is_directed = False, is_weighted = False, gverts = [''A'', ''B'', ''C''], gedges = [(''A'', ''B'', None), (''B'', ''C'', None), (''A'', ''C'', None)]\<rparr>)))
    = (case dijkstra_path \<lparr>is_directed = False, is_weighted = False, gverts = [''A'', ''B'', ''C''], gedges = [(''A'', ''B'', None), (''B'', ''C'', None), (''A'', ''C'', None)]\<rparr> ''A'' ''C'' of
         Some (Inr (p, l)) \<Rightarrow> JsVal l | _ \<Rightarrow> shortestPathLength (init_client\<lparr>pathStart := ''A'', pathEnd := ''C''\<rparr>))"
    using bfs_matches_dijkstra [of "\<lparr>is_directed = False, is_weighted = False, gverts = [''A'', ''B'', ''C''], gedges = [(''A'', ''B'', None), (''B'', ''C'', None), (''A'', ''C'', None)]\<rparr>"
        "init_client\<lparr>pathStart := ''A'', pathEnd := ''C''\<rparr>"]
    by (simp add: graph_inv_def weight_ok_def url_safe_def c0_or_space_def)
  also have "\<dots> = JsVal 1" by (simp add: dijkstra_path_def wedge_step_def)
  finally show ?thesis .
qed

text \<open>
  C29. In every page a session reaches, the vis-network drawing shows the
  page's current vertex and edge lists: the effect of lines 286--303 runs
  after every render, so the drawing is never stale.
\<close>

theorem network_never_stale:
  assumes "page_reach srv s0 p"
  shows "drawn (snd p) = Some (vis_graph (fst (fst p)))"
  using page_reach_inv [OF assms] by (simp add: net_inv_def)

theorem network_never_stale_witness:
  "drawn (snd (page_step serve (InsertEv ClickBatchInsert)
      (page_step serve (InsertEv (TypeBatch ''A B'')) (mount_page serve (reset False False)))))
   = Some (vis_graph (fst (fst (page_step serve (InsertEv ClickBatchInsert)
      (page_step serve (InsertEv (TypeBatch ''A B'')) (mount_page serve (reset False False)))))))"
proof -
  have "page_reach serve (reset False False) (page_step serve (InsertEv ClickBatchInsert)
      (page_step serve (InsertEv (TypeBatch ''A B'')) (mount_page serve (reset False False))))"
    by (intro page_reach.step page_reach.mount)
  then show ?thesis by (rule network_never_stale)
qed

text \<open>
  C30. Typing one character into any text field of the query sections
  (the two adjacency-check vertices, the neighbour, degree and path fields)
  rebuilds the vis-network, although the drawn nodes and edges are the same:
  the effect's dependencies are arrays created anew by every render.
\<close>

theorem typing_rebuilds_network:
  assumes "page_reach srv s0 p"
    and "e \<in> {TypeVertex1 t, TypeVertex2 t, TypeAdjVertex t, TypeDegreeVertex t, TypePathStart t, TypePathEnd t}"
  shows "builds (snd (page_step srv (QueryEv e) p)) = Suc (builds (snd p))
         \<and> drawn (snd (page_step srv (QueryEv e) p)) = drawn (snd p)"
proof -
  obtain c s ns where p: "p = ((c, s), ns)" by (cases p) auto
  have inv: "net_inv c ns" using page_reach_inv [OF assms(1)] p by simp
  have q: "vis_graph (fst (query_step srv e (c, s))) = vis_graph c" using assms(2) by (auto simp: vis_graph_def)
  have "page_step srv (QueryEv e) p = (query_step srv e (c, s), network_effect (fst (query_step srv e (c, s))) ns)"
    by (simp add: p page_step_def split: prod.splits)
  with inv q show ?thesis by (simp add: p network_effect_rebuilds [OF inv] net_inv_def)
qed

theorem typing_rebuilds_network_witness:
  "builds (snd (page_step serve (QueryEv (TypeVertex1 ''A'')) (mount_page serve (reset False False)))) = 3"
proof -
  have r: "page_reach serve (reset False False) (mount_page serve (reset False False))"
    by (rule page_reach.mount)
  have e: "TypeVertex1 ''A'' \<in> {TypeVertex1 ''A'', TypeVertex2 ''A'', TypeAdjVertex ''A'', TypeDegreeVertex ''A'',
                               TypePathStart ''A'', TypePathEnd ''A''}" by simp
  have "builds (snd (mount_page serve (reset False False))) = 2"
    by (simp add: mount_page_def network_effect_def net_init_def deps_changed_def Let_def split: prod.splits)
  with typing_rebuilds_network [OF r e] show ?thesis by simp
qed

text \<open>
  C31. The arrows of the drawn edges follow the "directed" radio button, not
  the engine's graph: selecting "yes" sends nothing to the engine, yet every
  edge is then drawn with an arrow.
\<close>

theorem arrows_follow_radio:
  assumes "page_reach srv s0 p"
  shows "snd (fst (page_step srv (CreateEv (SelectDirected ''yes'')) p)) = snd (fst p)
         \<and> drawn (snd (page_step srv (CreateEv (SelectDirected ''yes'')) p)) =
             Some (fst (vis_graph (fst (fst p))),
                   map (\<lambda>e. (vis_edge_of (vertices (fst (fst p))) False e)\<lparr>arrows := ''to''\<rparr>) (edges (fst (fst p))))"
proof -
  obtain c s ns where p: "p = ((c, s), ns)" by (cases p) auto
  have inv: "net_inv c ns" using page_reach_inv [OF assms] p by simp
  show ?thesis
    by (simp add: p page_step_def network_effect_rebuilds [OF inv] vis_graph_def vis_edge_of_def)
qed

theorem arrows_follow_radio_witness:
  "let p = page_step serve (InsertEv ClickBatchInsert)
             (page_step serve (InsertEv (TypeBatch ''A B'')) (mount_page serve (reset False False)))
   in \<not> is_directed (snd (fst (page_step serve (CreateEv (SelectDirected ''yes'')) p)))
      \<and> map arrows (snd (the (drawn (snd (page_step serve (CreateEv (SelectDirected ''yes'')) p))))) = [''to'']"
proof -
  define p where "p = page_step serve (InsertEv ClickBatchInsert)
             (page_step serve (InsertEv (TypeBatch ''A B'')) (mount_page serve (reset False False)))"
  have r: "page_reach serve (reset False False) p" unfolding p_def by (intro page_reach.step page_reach.mount)
  have e: "edges (fst (fst p)) = [Edge2 ''A'' ''B''] \<and> \<not> is_directed (snd (fst p))"
    unfolding p_def by code_simp
  from arrows_follow_radio [OF r] e show ?thesis unfolding p_def [symmetric] Let_def by simp
qed

text \<open>
  C32. On a well-formed directed graph the page reports an Eulerian path
  exactly when the graph has an edge, does not qualify for a circuit (all
  vertices with edges mutually reachable and every vertex balanced), has at
  most one vertex with one more outgoing than incoming edge and at most one
  with one more incoming, no other unbalanced vertex, and its vertices with
  edges are joined by walks when directions are ignored.
\<close>

theorem euler_path_directed_walks:
  assumes "graph_inv g" and "is_directed g"
  shows "eulerianResult (fst (handleCheckEulerian serve (c, g))) = JsVal EulerPath \<longleftrightarrow>
     gedges g \<noteq> [] \<and>
     \<not> ((\<forall>v\<in>set (active g). \<forall>w\<in>set (active g). w \<in> reachable_set g v) \<and>
        (\<forall>v\<in>set (gverts g). out_degree v g = in_degree v g)) \<and>
     length (filter (\<lambda>v. out_degree v g = in_degree v g + 1) (gverts g)) \<le> 1 \<and>
     length (filter (\<lambda>v. in_degree v g = out_degree v g + 1) (gverts g)) \<le> 1 \<and>
     length (filter (\<lambda>v. out_degree v g \<noteq> in_degree v g) (gverts g)) =
       length (filter (\<lambda>v. out_degree v g = in_degree v g + 1) (gverts g)) +
       length (filter (\<lambda>v. in_degree v g = out_degree v g + 1) (gverts g)) \<and>
     (\<forall>v\<in>set (active g). \<forall>w\<in>set (active g). w \<in> reachable_set (g\<lparr>is_directed := False\<rparr>) v)"
  using eulerian_path_walks_directed [OF assms] by (simp add: handleCheckEulerian_serve)

theorem euler_path_directed_walks_witness:
  "let g = \<lparr>is_directed = True, is_weighted = False, gverts = [''A'', ''B'', ''C''],
            gedges = [(''A'', ''B'', None), (''B'', ''C'', None)]\<rparr>
   in graph_inv g \<and> (\<forall>v\<in>set (active g). \<forall>w\<in>set (active g). w \<in> reachable_set (g\<lparr>is_directed := False\<rparr>) v)"
proof -
  define g where "g = \<lparr>is_directed = True, is_weighted = False, gverts = [''A'', ''B'', ''C''],
            gedges = [(''A'', ''B'', None), (''B'', ''C'', None)]\<rparr>"
  have gi: "graph_inv g" by (simp add: g_def graph_inv_def weight_ok_def)
  have dg: "is_directed g" by (simp add: g_def)
  have "eulerianResult (fst (handleCheckEulerian serve (init_client, g))) = JsVal EulerPath"
    unfolding handleCheckEulerian_serve by (simp add: g_def) code_simp
  with euler_path_directed_walks [OF gi dg]
  have "\<forall>v\<in>set (active g). \<forall>w\<in>set (active g). w \<in> reachable_set (g\<lparr>is_directed := False\<rparr>) v" by blast
  with gi show ?thesis unfolding g_def Let_def by simp
qed

text \<open>
  C33. End to end, from any engine state: creating a weighted graph, typing a
  batch in the documented format with whole-number weights below \<open>2^53\<close>
  (read exactly by \<open>parseFloat\<close>, see C7), inserting it and
  asking for a path between two of its labels makes the engine hold exactly
  the typed edges, and the page shows a walk between the two labels whose
  weights add up to the shown length and than which no walk is cheaper, or,
  when the labels are not joined, keeps showing no path.
\<close>

theorem batch_session_cheapest_path:
  assumes "es \<noteq> []" and fmt: "\<forall>(a, b, w)\<in>set es. no_ws a \<and> no_ws b \<and> (\<exists>n. w = Some n \<and> n < 2 ^ 53)"
    and "url_safe s" and "url_safe t"
    and "s \<in> endpoints (map cedge_of_format es)" and "t \<in> endpoints (map cedge_of_format es)"
  shows "let (c, g) = ui_session serve
              [CreateEv (SelectDirected d), CreateEv (SelectWeighted ''yes''), CreateEv SubmitCreate,
               InsertEv (TypeBatch (js_join CHR ''\<newline>'' (map format_line es))), InsertEv ClickBatchInsert,
               QueryEv (TypePathStart s), QueryEv (TypePathEnd t), QueryEv ClickFindPath] g0
         in gedges g = map (\<lambda>(a, b, w). (a, b, map_option of_nat w)) es
            \<and> ((\<exists>p l. shortestPath c = PathList p \<and> shortestPathLength c = JsVal l
                   \<and> path_cost g p l \<and> hd p = s \<and> last p = t
                   \<and> (\<forall>q d'. path_cost g q d' \<and> hd q = s \<and> last q = t \<longrightarrow> l \<le> d'))
               \<or> (shortestPath c = PathStr [] \<and> (\<forall>q d'. path_cost g q d' \<and> hd q = s \<longrightarrow> last q \<noteq> t)))"
proof -
  define btext where "btext = js_join CHR ''\<newline>'' (map format_line es)"
  define es' where "es' = map (\<lambda>(a, b, w). (a, b, map_option (of_nat :: nat \<Rightarrow> rat) w)) es"
  define c1 where "c1 = init_client\<lparr>directed := (d = ''yes''), weighted := True, graphInfo := (JsVal 0, JsVal 0), batchData := btext\<rparr>"
  define g' where "g' = fst (insert_batch (fst (batch_items btext)) es' (reset (d = ''yes'') True))"
  have parse: "snd (batch_items btext) = map cedge_of_format es"
    unfolding btext_def using assms(1) fmt by (intro batch_items_format) auto
  have wire: "map (\<lambda>(a, b, w). (a, b, weight_of_wire w)) (map wire_of_cedge (snd (batch_items btext))) = es'"
    unfolding parse es'_def using fmt by (intro format_engine_edges) auto
  define c2 where "c2 = fst (handleBatchInsert serve (c1, reset (d = ''yes'') True))"
  have hb: "snd (handleBatchInsert serve (c1, reset (d = ''yes'') True)) = g'"
  proof -
    have bd: "batchData c1 = btext" by (simp add: c1_def)
    show ?thesis unfolding handleBatchInsert_serve Let_def bd wire by (simp add: g'_def)
  qed
  have sp: "shortestPath c2 = PathStr []"
    by (simp add: c2_def handleBatchInsert_serve c1_def init_client_def Let_def)
  have inv: "graph_inv g'" unfolding g'_def
    by (intro graph_inv_insert_batch) (simp add: graph_inv_def reset_def)
  have wg: "is_weighted g'" by (simp add: g'_def insert_batch_mode reset_def)
  have ok: "\<forall>(a, b, w)\<in>set es'. weight_ok True w" using fmt by (auto simp: es'_def weight_ok_def)
  have ed: "gedges g' = es'"
    using ok by (simp add: g'_def insert_batch_edges reset_def filter_id_conv)
  have nn: "nonneg_weights g'"
    by (auto simp: nonneg_weights_def list_all_iff ed es'_def split: option.splits prod.splits)
  have "set (fst (batch_items btext)) \<subseteq> set (gverts g')" unfolding g'_def by (rule insert_batch_vertices)
  then have vs: "endpoints (map cedge_of_format es) \<subseteq> set (gverts g')"
    using batch_items_vertices [of btext] parse by simp
  let ?c = "c2\<lparr>pathStart := s, pathEnd := t\<rparr>"
  have q: "(\<exists>p l. handleFindShortestPath serve (?c, g') =
              (?c\<lparr>shortestPath := PathList p, shortestPathLength := JsVal l\<rparr>, g')
            \<and> path_cost g' p l \<and> hd p = pathStart ?c \<and> last p = pathEnd ?c
            \<and> (\<forall>q d. path_cost g' q d \<and> hd q = pathStart ?c \<and> last q = pathEnd ?c \<longrightarrow> l \<le> d))
         \<or> (handleFindShortestPath serve (?c, g') = (?c, g')
            \<and> (\<forall>q d. path_cost g' q d \<and> hd q = pathStart ?c \<longrightarrow> last q \<noteq> pathEnd ?c))"
    using inv wg nn assms(3,4) vs assms(5,6) by (intro handleFindShortestPath_weighted) auto
  have sess: "ui_session serve
              [CreateEv (SelectDirected d), CreateEv (SelectWeighted ''yes''), CreateEv SubmitCreate,
               InsertEv (TypeBatch btext), InsertEv ClickBatchInsert,
               QueryEv (TypePathStart s), QueryEv (TypePathEnd t), QueryEv ClickFindPath] g0
            = handleFindShortestPath serve (?c, g')"
  proof -
    have "ui_session serve
              [CreateEv (SelectDirected d), CreateEv (SelectWeighted ''yes''), CreateEv SubmitCreate,
               InsertEv (TypeBatch btext), InsertEv ClickBatchInsert,
               QueryEv (TypePathStart s), QueryEv (TypePathEnd t), QueryEv ClickFindPath] g0
          = (let cg = handleBatchInsert serve (c1, reset (d = ''yes'') True)
             in handleFindShortestPath serve ((fst cg)\<lparr>pathStart := s, pathEnd := t\<rparr>, snd cg))"
      using batch_path_session [of d btext s t g0] unfolding c1_def .
    also have "\<dots> = handleFindShortestPath serve (?c, g')"
      unfolding Let_def c2_def [symmetric] hb ..
    finally show ?thesis .
  qed
  have e1: "gedges g' = map (\<lambda>(a, b, w). (a, b, map_option of_nat w)) es" using ed by (simp add: es'_def)
  have ps: "pathStart ?c = s" "pathEnd ?c = t" by simp_all
  from q show ?thesis
  proof (elim disjE exE conjE)
    fix p l assume h: "handleFindShortestPath serve (?c, g') =
              (?c\<lparr>shortestPath := PathList p, shortestPathLength := JsVal l\<rparr>, g')"
      and r: "path_cost g' p l" "hd p = pathStart ?c" "last p = pathEnd ?c"
        "\<forall>q d. path_cost g' q d \<and> hd q = pathStart ?c \<and> last q = pathEnd ?c \<longrightarrow> l \<le> d"
    have f: "shortestPath (?c\<lparr>shortestPath := PathList p, shortestPathLength := JsVal l\<rparr>) = PathList p"
      "shortestPathLength (?c\<lparr>shortestPath := PathList p, shortestPathLength := JsVal l\<rparr>) = JsVal l" by simp_all
    show ?thesis unfolding btext_def [symmetric] sess h prod.case Let_def
      using e1 f r [unfolded ps] by blast
  next
    assume h: "handleFindShortestPath serve (?c, g') = (?c, g')"
      and r: "\<forall>q d. path_cost g' q d \<and> hd q = pathStart ?c \<longrightarrow> last q \<noteq> pathEnd ?c"
    have f: "shortestPath ?c = PathStr []" using sp by simp
    show ?thesis unfolding btext_def [symmetric] sess h prod.case Let_def
      using e1 f r [unfolded ps] by blast
  qed
qed


theorem batch_session_cheapest_path_witness:
  "let (c, g) = ui_session serve
        [CreateEv (SelectDirected ''no''), CreateEv (SelectWeighted ''yes''), CreateEv SubmitCreate,
         InsertEv (TypeBatch (js_join CHR ''\<newline>'' (map format_line [(''A'', ''B'', Some 3), (''A'', ''C'', Some 1), (''C'', ''B'', Some 1)]))),
         InsertEv ClickBatchInsert,
         QueryEv (TypePathStart ''A''), QueryEv (TypePathEnd ''B''), QueryEv ClickFindPath] (reset False False)
   in shortestPath c = PathList [''A'', ''C'', ''B''] \<and> shortestPathLength c = JsVal 2
      \<and> (\<forall>q d'. path_cost g q d' \<and> hd q = ''A'' \<and> last q = ''B'' \<longrightarrow> 2 \<le> d')"
proof -
  define es where "es = [(''A'', ''B'', Some (3::nat)), (''A'', ''C'', Some 1), (''C'', ''B'', Some 1)]"
  define S where "S = ui_session serve
        [CreateEv (SelectDirected ''no''), CreateEv (SelectWeighted ''yes''), CreateEv SubmitCreate,
         InsertEv (TypeBatch (js_join CHR ''\<newline>'' (map format_line es))),
         InsertEv ClickBatchInsert,
         QueryEv (TypePathStart ''A''), QueryEv (TypePathEnd ''B''), QueryEv ClickFindPath] (reset False False)"
  have hyps: "es \<noteq> []" "\<forall>(a, b, w)\<in>set es. no_ws a \<and> no_ws b \<and> (\<exists>n. w = Some n \<and> n < 2 ^ 53)"
    "url_safe ''A''" "url_safe ''B''"
    "''A'' \<in> endpoints (map cedge_of_format es)" "''B'' \<in> endpoints (map cedge_of_format es)"
    by (simp_all add: es_def no_ws_def js_ws_def url_safe_def c0_or_space_def endpoints_def)
  have run: "shortestPath (fst S) = PathList [''A'', ''C'', ''B''] \<and> shortestPathLength (fst S) = JsVal 2"
    unfolding S_def es_def by code_simp
  from batch_session_cheapest_path [OF hyps, of "''no''" "reset False False"]
  have "(\<exists>p l. shortestPath (fst S) = PathList p \<and> shortestPathLength (fst S) = JsVal l
            \<and> (\<forall>q d'. path_cost (snd S) q d' \<and> hd q = ''A'' \<and> last q = ''B'' \<longrightarrow> l \<le> d'))
        \<or> shortestPath (fst S) = PathStr []"
    unfolding S_def [symmetric] by (auto simp: Let_def split: prod.splits)
  with run have "\<forall>q d'. path_cost (snd S) q d' \<and> hd q = ''A'' \<and> last q = ''B'' \<longrightarrow> 2 \<le> d'"
    by auto
  moreover have eq: "ui_session serve
        [CreateEv (SelectDirected ''no''), CreateEv (SelectWeighted ''yes''), CreateEv SubmitCreate,
         InsertEv (TypeBatch (js_join CHR ''\<newline>'' (map format_line [(''A'', ''B'', Some 3), (''A'', ''C'', Some 1), (''C'', ''B'', Some 1)]))),
         InsertEv ClickBatchInsert,
         QueryEv (TypePathStart ''A''), QueryEv (TypePathEnd ''B''), QueryEv ClickFindPath] (reset False False) = S"
    unfolding S_def es_def ..
  ultimately show ?thesis using run unfolding eq by (cases S) simp
qed

text \<open>
  C34. Two edges added one after the other in single-insert mode of an
  unweighted graph, whose replies arrive in the opposite order, are both
  kept: \<open>handleAddEdge\<close> appends through \<open>setEdges(prev => ...)\<close> with the
  endpoints its closure captured at the click, so the page lists both edges
  (in the order the replies arrived) and the engine holds both (in the order
  they were sent), from any such page with nothing in flight.
\<close>

theorem crossed_add_edge_replies_keep_both:
  assumes "inflight p = []" and "insertMode (acl p) = ''single''"
    and "\<not> weighted (acl p)" and "\<not> is_weighted (aserver p)"
  shows "let p' = arun serve
               [AInsert (TypeStart a), AInsert (TypeEnd b), AInsert ClickAddEdge,
                AInsert (TypeStart a'), AInsert (TypeEnd b'), AInsert ClickAddEdge,
                Deliver 1, Deliver 0] p
         in inflight p' = []
            \<and> edges (acl p') = edges (acl p) @ [Edge3 a' b' JUndefined, Edge3 a b JUndefined]
            \<and> gedges (aserver p') = gedges (aserver p) @ [(a, b, None), (a', b', None)]"
  using assms
  by (simp add: click_add_edge_serve deliver_add_edge remove_nth_def Let_def)

theorem crossed_add_edge_replies_keep_both_witness:
  "let p' = arun serve
          [AInsert (TypeStart ''A''), AInsert (TypeEnd ''B''), AInsert ClickAddEdge,
           AInsert (TypeStart ''C''), AInsert (TypeEnd ''D''), AInsert ClickAddEdge,
           Deliver 1, Deliver 0]
          \<lparr>acl = init_client\<lparr>insertMode := ''single''\<rparr>, aserver = reset False False, inflight = []\<rparr>
   in edges (acl p') = [Edge3 ''C'' ''D'' JUndefined, Edge3 ''A'' ''B'' JUndefined]
      \<and> gedges (aserver p') = [(''A'', ''B'', None), (''C'', ''D'', None)]"
proof -
  define p0 where "p0 = \<lparr>acl = init_client\<lparr>insertMode := ''single''\<rparr>, aserver = reset False False, inflight = []\<rparr>"
  define P where "P = arun serve
          [AInsert (TypeStart ''A''), AInsert (TypeEnd ''B''), AInsert ClickAddEdge,
           AInsert (TypeStart ''C''), AInsert (TypeEnd ''D''), AInsert ClickAddEdge,
           Deliver 1, Deliver 0] p0"
  have m: "inflight p0 = []" "insertMode (acl p0) = ''single''" "\<not> weighted (acl p0)" "\<not> is_weighted (aserver p0)"
    by (simp_all add: p0_def init_client_def reset_def)
  have e0: "edges (acl p0) = []" "gedges (aserver p0) = []" by (simp_all add: p0_def init_client_def reset_def)
  have "edges (acl P) = edges (acl p0) @ [Edge3 ''C'' ''D'' JUndefined, Edge3 ''A'' ''B'' JUndefined]
        \<and> gedges (aserver P) = gedges (aserver p0) @ [(''A'', ''B'', None), (''C'', ''D'', None)]"
    using crossed_add_edge_replies_keep_both [OF m, of "''A''" "''B''" "''C''" "''D''"]
    unfolding Let_def P_def by blast
  then have "edges (acl P) = [Edge3 ''C'' ''D'' JUndefined, Edge3 ''A'' ''B'' JUndefined]
      \<and> gedges (aserver P) = [(''A'', ''B'', None), (''C'', ''D'', None)]" unfolding e0 by simp
  then show ?thesis unfolding Let_def P_def p0_def .
qed

text \<open>
  C35. Two batch inserts clicked one after the other, whose replies arrive in
  the opposite order, leave the page listing the vertices and edges of the
  engine's graph after the first batch only, while the engine holds both
  batches and the information line counts the final graph: the handler sets
  the lists from whichever reply arrives last.  From any page in batch mode
  with nothing in flight, for any two batch texts.
\<close>

theorem crossed_batch_replies_leave_stale_lists:
  assumes "inflight p = []" and "insertMode (acl p) = ''batch''"
  shows "let p' = arun serve
               [AInsert (TypeBatch t1), AInsert ClickBatchInsert, AInsert (TypeBatch t2), AInsert ClickBatchInsert,
                Deliver 1, Deliver 0, Deliver 0, Deliver 0] p;
             g1 = fst (insert_batch (fst (batch_items t1))
                    (map (\<lambda>(a, b, w). (a, b, weight_of_wire w)) (map wire_of_cedge (snd (batch_items t1)))) (aserver p));
             g2 = fst (insert_batch (fst (batch_items t2))
                    (map (\<lambda>(a, b, w). (a, b, weight_of_wire w)) (map wire_of_cedge (snd (batch_items t2)))) g1)
         in inflight p' = [] \<and> aserver p' = g2 \<and> vertices (acl p') = gverts g1
            \<and> edges (acl p') = map (\<lambda>e. cedge_of_wire (wire_of_gedge e)) (gedges g1)
            \<and> graphInfo (acl p') = (JsVal (graph_order g2), JsVal (graph_size g2))"
proof -
  define g1 where "g1 = fst (insert_batch (fst (batch_items t1))
                    (map (\<lambda>(a, b, w). (a, b, weight_of_wire w)) (map wire_of_cedge (snd (batch_items t1)))) (aserver p))"
  define g2 where "g2 = fst (insert_batch (fst (batch_items t2))
                    (map (\<lambda>(a, b, w). (a, b, weight_of_wire w)) (map wire_of_cedge (snd (batch_items t2)))) g1)"
  define r1 where "r1 = Ok (RItems (gverts g1) (map wire_of_gedge (gedges g1)))"
  define r2 where "r2 = Ok (RItems (gverts g2) (map wire_of_gedge (gedges g2)))"
  define c1 where "c1 = (acl p)\<lparr>batchData := t1\<rparr>"
  define c2 where "c2 = c1\<lparr>batchData := t2\<rparr>"
  have s1: "astep serve (AInsert (TypeBatch t1)) p = p\<lparr>acl := c1\<rparr>"
    using assms(2) by (simp add: c1_def)
  have s2: "astep serve (AInsert ClickBatchInsert) (p\<lparr>acl := c1\<rparr>) =
            p\<lparr>acl := c1, aserver := g1, inflight := [(r1, KBatch)]\<rparr>"
    using assms by (simp add: c1_def click_batch_serve g1_def r1_def Let_def)
  have s3: "astep serve (AInsert (TypeBatch t2)) (p\<lparr>acl := c1, aserver := g1, inflight := [(r1, KBatch)]\<rparr>) =
            p\<lparr>acl := c2, aserver := g1, inflight := [(r1, KBatch)]\<rparr>"
    using assms(2) by (simp add: c1_def c2_def)
  have s4: "astep serve (AInsert ClickBatchInsert) (p\<lparr>acl := c2, aserver := g1, inflight := [(r1, KBatch)]\<rparr>) =
            p\<lparr>acl := c2, aserver := g2, inflight := [(r1, KBatch), (r2, KBatch)]\<rparr>"
    using assms(2) by (simp add: c1_def c2_def click_batch_serve g2_def r2_def Let_def)
  have s5: "astep serve (Deliver 1) (p\<lparr>acl := c2, aserver := g2, inflight := [(r1, KBatch), (r2, KBatch)]\<rparr>) =
            p\<lparr>acl := c2\<lparr>vertices := gverts g2, edges := map cedge_of_wire (map wire_of_gedge (gedges g2))\<rparr>,
              aserver := g2, inflight := [(r1, KBatch), (Ok (RInfo (graph_order g2) (graph_size g2)), KInfo)]\<rparr>"
    by (simp add: deliver_batch_serve r2_def remove_nth_def)
  have s6: "astep serve (Deliver 0) (p\<lparr>acl := c2\<lparr>vertices := gverts g2, edges := map cedge_of_wire (map wire_of_gedge (gedges g2))\<rparr>,
              aserver := g2, inflight := [(r1, KBatch), (Ok (RInfo (graph_order g2) (graph_size g2)), KInfo)]\<rparr>) =
            p\<lparr>acl := c2\<lparr>vertices := gverts g1, edges := map cedge_of_wire (map wire_of_gedge (gedges g1))\<rparr>,
              aserver := g2, inflight := [(Ok (RInfo (graph_order g2) (graph_size g2)), KInfo),
                                          (Ok (RInfo (graph_order g2) (graph_size g2)), KInfo)]\<rparr>"
    by (simp add: deliver_batch_serve r1_def remove_nth_def)
  have s78: "astep serve (Deliver 0) (astep serve (Deliver 0)
            (p\<lparr>acl := c2\<lparr>vertices := gverts g1, edges := map cedge_of_wire (map wire_of_gedge (gedges g1))\<rparr>,
              aserver := g2, inflight := [(Ok (RInfo (graph_order g2) (graph_size g2)), KInfo),
                                          (Ok (RInfo (graph_order g2) (graph_size g2)), KInfo)]\<rparr>)) =
            p\<lparr>acl := c2\<lparr>vertices := gverts g1, edges := map cedge_of_wire (map wire_of_gedge (gedges g1)),
                graphInfo := (JsVal (graph_order g2), JsVal (graph_size g2))\<rparr>, aserver := g2, inflight := []\<rparr>"
    by (simp add: deliver_info_any remove_nth_def)
  have fin: "arun serve
               [AInsert (TypeBatch t1), AInsert ClickBatchInsert, AInsert (TypeBatch t2), AInsert ClickBatchInsert,
                Deliver 1, Deliver 0, Deliver 0, Deliver 0] p =
            p\<lparr>acl := c2\<lparr>vertices := gverts g1, edges := map cedge_of_wire (map wire_of_gedge (gedges g1)),
                graphInfo := (JsVal (graph_order g2), JsVal (graph_size g2))\<rparr>, aserver := g2, inflight := []\<rparr>"
    by (simp only: arun.simps s1 s2 s3 s4 s5 s6 s78)
  show ?thesis
    unfolding Let_def g1_def [symmetric] g2_def [symmetric] fin by simp
qed

theorem crossed_batch_replies_leave_stale_lists_witness:
  "let p' = arun serve
          [AInsert (TypeBatch ''A B''), AInsert ClickBatchInsert, AInsert (TypeBatch ''C D''), AInsert ClickBatchInsert,
           Deliver 1, Deliver 0, Deliver 0, Deliver 0]
          \<lparr>acl = init_client, aserver = reset False False, inflight = []\<rparr>
   in vertices (acl p') = [''A'', ''B''] \<and> gverts (aserver p') = [''A'', ''B'', ''C'', ''D'']"
proof -
  have m: "inflight \<lparr>acl = init_client, aserver = reset False False, inflight = []\<rparr> = []"
    "insertMode (acl \<lparr>acl = init_client, aserver = reset False False, inflight = []\<rparr>) = ''batch''"
    by (simp_all add: init_client_def)
  have b1: "batch_items ''A B'' = ([''A'', ''B''], [Edge2 ''A'' ''B''])" by code_simp
  have b2: "batch_items ''C D'' = ([''C'', ''D''], [Edge2 ''C'' ''D''])" by code_simp
  define P where "P = arun serve
          [AInsert (TypeBatch ''A B''), AInsert ClickBatchInsert, AInsert (TypeBatch ''C D''), AInsert ClickBatchInsert,
           Deliver 1, Deliver 0, Deliver 0, Deliver 0]
          \<lparr>acl = init_client, aserver = reset False False, inflight = []\<rparr>"
  define G1 where "G1 = fst (insert_batch (fst (batch_items ''A B''))
                    (map (\<lambda>(a, b, w). (a, b, weight_of_wire w)) (map wire_of_cedge (snd (batch_items ''A B'')))) (reset False False))"
  define G2 where "G2 = fst (insert_batch (fst (batch_items ''C D''))
                    (map (\<lambda>(a, b, w). (a, b, weight_of_wire w)) (map wire_of_cedge (snd (batch_items ''C D'')))) G1)"
  have h: "vertices (acl P) = gverts G1 \<and> aserver P = G2"
    using crossed_batch_replies_leave_stale_lists [OF m, of "''A B''" "''C D''"]
    unfolding Let_def P_def G1_def G2_def by simp
  have g1: "gverts G1 = [''A'', ''B'']"
    unfolding G1_def by code_simp
  have g2: "gverts G2 = [''A'', ''B'', ''C'', ''D'']"
    unfolding G2_def G1_def by code_simp
  show ?thesis unfolding Let_def P_def [symmetric] using h g1 g2 by simp
qed

end
